theory Spec2Isabelle
  imports Main "HOL-Library.Sublist"
begin

section \<open>Python string primitives used by migrate.py\<close>

text \<open>
  A Python \<open>str\<close> is modelled as a \<open>string\<close>; a \<open>char\<close> stands for one code point
  below 256.  The script reads its input in text mode and iterates over the file, so the
  input of the model is the list of lines that the iteration yields.
\<close>

text \<open>\<open>s.find(sub)\<close>: the lowest index at which \<open>sub\<close> occurs in \<open>s\<close>, or \<open>-1\<close>.\<close>

fun find_idx :: "string \<Rightarrow> string \<Rightarrow> nat option" where
  "find_idx sub [] = (if sub = [] then Some 0 else None)"
| "find_idx sub (c # cs) =
     (if prefix sub (c # cs) then Some 0
      else (case find_idx sub cs of None \<Rightarrow> None | Some i \<Rightarrow> Some (Suc i)))"

definition py_find :: "string \<Rightarrow> string \<Rightarrow> int" where
  "py_find s sub = (case find_idx sub s of None \<Rightarrow> - 1 | Some i \<Rightarrow> int i)"

text \<open>\<open>s.find(sub, start)\<close> for \<open>0 \<le> start\<close>; beyond the end of \<open>s\<close> nothing is found.\<close>

definition py_find_from :: "string \<Rightarrow> string \<Rightarrow> nat \<Rightarrow> int" where
  "py_find_from s sub start =
     (if length s < start then - 1
      else (case find_idx sub (drop start s) of None \<Rightarrow> - 1 | Some i \<Rightarrow> int (start + i)))"

text \<open>
  \<open>s.replace(old, new)\<close>: every non-overlapping occurrence of \<open>old\<close>, scanning from the
  left.  With an empty \<open>old\<close> Python puts \<open>new\<close> before every character and at the end.
\<close>

fun py_replace :: "string \<Rightarrow> string \<Rightarrow> string \<Rightarrow> string" where
  "py_replace [] new s = new @ concat (map (\<lambda>c. c # new) s)"
| "py_replace (a # as) new [] = []"
| "py_replace (a # as) new (c # cs) =
     (if prefix (a # as) (c # cs) then new @ py_replace (a # as) new (drop (length as) cs)
      else c # py_replace (a # as) new cs)"

text \<open>The characters below 256 for which \<open>str.isspace\<close> holds; \<open>strip()\<close> removes them at both ends.\<close>

definition is_space :: "char \<Rightarrow> bool" where
  "is_space c \<longleftrightarrow> c \<in> set [CHR 0x20, CHR 0x09, CHR 0x0A, CHR 0x0B, CHR 0x0C, CHR 0x0D,
                             CHR 0x1C, CHR 0x1D, CHR 0x1E, CHR 0x1F, CHR 0x85, CHR 0xA0]"

definition py_strip :: "string \<Rightarrow> string" where
  "py_strip s = rev (dropWhile is_space (rev (dropWhile is_space s)))"

text \<open>\<open>s[i:j]\<close> for non-negative \<open>i\<close> and \<open>j\<close>, clipped to the string as Python does.\<close>

definition slice :: "string \<Rightarrow> nat \<Rightarrow> nat \<Rightarrow> string" where
  "slice s i j = drop i (take j s)"

section \<open>Constants of the script\<close>

definition CONST_SERIAL_PRIMARY_KEY :: string where
  "CONST_SERIAL_PRIMARY_KEY = ''SERIAL PRIMARY KEY,\<newline>''"
definition CONST_PRIMARY_KEY :: string where "CONST_PRIMARY_KEY = ''PRIMARY KEY(''"
definition CONST_FOREIGN_KEY :: string where "CONST_FOREIGN_KEY = ''FOREIGN KEY''"
definition CONST_CREATE_TABLE :: string where "CONST_CREATE_TABLE = ''CREATE TABLE''"
definition CONST_CREATE_TRIGGER_START :: string where
  "CONST_CREATE_TRIGGER_START = ''CREATE TRIGGER''"
definition CONST_CREATE_TRIGGER_END :: string where "CONST_CREATE_TRIGGER_END = ''END;\<newline>''"
definition CONST_CREATE_VIEW_START :: string where "CONST_CREATE_VIEW_START = ''CREATE VIEW''"
definition CONST_CREATE_VIEW_END :: string where "CONST_CREATE_VIEW_END = '';\<newline>''"
definition CONST_BOOL_TRUE :: string where "CONST_BOOL_TRUE = ''TRUE''"
definition CONST_BOOL_FALSE :: string where "CONST_BOOL_FALSE = ''FALSE''"
definition CONST_EXISTS :: string where "CONST_EXISTS = ''EXISTS ''"
definition CONST_AUTOINCREMENT :: string where "CONST_AUTOINCREMENT = '' AUTOINCREMENT''"
definition CONST_UNSIGNED :: string where "CONST_UNSIGNED = ''UNSIGNED''"
definition CONST_DEFAULT :: string where "CONST_DEFAULT = '' DEFAUL''"
definition CONST_DATATYPE_ENUM :: string where "CONST_DATATYPE_ENUM = ''ENUM''"
definition CONST_DATATYPE_YEAR :: string where "CONST_DATATYPE_YEAR = ''YEAR''"
definition CONST_DATATYPE_TEXT :: string where "CONST_DATATYPE_TEXT = ''TEXT''"
definition CONST_DATATYPE_DATEIME :: string where "CONST_DATATYPE_DATEIME = ''DATETIME''"
definition CONST_DATATYPE_TIMESTAMP :: string where "CONST_DATATYPE_TIMESTAMP = ''TIMESTAMP''"
definition CONST_DATATYPE_BOOLEAN :: string where "CONST_DATATYPE_BOOLEAN = ''BOOLEAN''"
definition CONST_DATATYPE_INT_DEFAULT :: string where
  "CONST_DATATYPE_INT_DEFAULT = ''INT DEFAULT''"
definition CONST_DATATYPE_MEDIUMINT :: string where "CONST_DATATYPE_MEDIUMINT = ''MEDIUMINT''"
definition CONST_DATATYPE_INTEGER :: string where "CONST_DATATYPE_INTEGER = ''INTEGER''"
definition CONST_DATATYPE_TINYINT :: string where "CONST_DATATYPE_TINYINT = ''TINYINT''"
definition CONST_DATATYPE_SMALLINT :: string where "CONST_DATATYPE_SMALLINT = ''SMALLINT''"
definition CONST_DATATYPE_BLOB :: string where "CONST_DATATYPE_BLOB = ''BLOB''"
definition CONST_DATATYPE_BYTEA :: string where "CONST_DATATYPE_BYTEA = ''BYTEA''"

lemmas const_defs =
  CONST_SERIAL_PRIMARY_KEY_def CONST_PRIMARY_KEY_def CONST_FOREIGN_KEY_def
  CONST_CREATE_TABLE_def CONST_CREATE_TRIGGER_START_def CONST_CREATE_TRIGGER_END_def
  CONST_CREATE_VIEW_START_def CONST_CREATE_VIEW_END_def CONST_BOOL_TRUE_def
  CONST_BOOL_FALSE_def CONST_EXISTS_def CONST_AUTOINCREMENT_def CONST_UNSIGNED_def
  CONST_DEFAULT_def CONST_DATATYPE_ENUM_def CONST_DATATYPE_YEAR_def CONST_DATATYPE_TEXT_def
  CONST_DATATYPE_DATEIME_def CONST_DATATYPE_TIMESTAMP_def CONST_DATATYPE_BOOLEAN_def
  CONST_DATATYPE_INT_DEFAULT_def CONST_DATATYPE_MEDIUMINT_def CONST_DATATYPE_INTEGER_def
  CONST_DATATYPE_TINYINT_def CONST_DATATYPE_SMALLINT_def CONST_DATATYPE_BLOB_def
  CONST_DATATYPE_BYTEA_def

section \<open>The two helper functions\<close>

definition get_table_name :: "string \<Rightarrow> string" where
  "get_table_name a_line =
     (let pt1 = py_find a_line CONST_EXISTS in
      if pt1 \<ge> 0 then
        (let pt1' = pt1 + int (length CONST_EXISTS);
             pt2 = py_find a_line '' ('' in
         if pt2 > pt1' then slice a_line (nat pt1') (nat pt2) else '''')
      else '''')"

definition modify_primary_key_syntax :: "string \<Rightarrow> string" where
  "modify_primary_key_syntax field_name =
     (let pt1 = py_find field_name '' '' in
      if pt1 \<ge> 0 then slice field_name 0 (nat (pt1 + 1)) @ CONST_SERIAL_PRIMARY_KEY
      else field_name)"

section \<open>The token rewrites at the head of the main loop (lines 122 to 145)\<close>

text \<open>Lines 127 to 132: the boolean type and its literals.\<close>

definition rewrite_boolean :: "string \<Rightarrow> string" where
  "rewrite_boolean line =
     (if py_find line CONST_DATATYPE_BOOLEAN \<ge> 0 then
        (let line1 = py_replace CONST_DATATYPE_BOOLEAN CONST_DATATYPE_INTEGER line in
         if py_find line1 CONST_BOOL_TRUE \<ge> 0 then py_replace CONST_BOOL_TRUE ''1'' line1
         else if py_find line1 CONST_BOOL_FALSE \<ge> 0 then py_replace CONST_BOOL_FALSE ''0'' line1
         else line1)
      else line)"

text \<open>Lines 143 to 145: a field with no datatype gets \<open>TEXT\<close>.\<close>

definition patch_missing_datatype :: "string \<Rightarrow> string" where
  "patch_missing_datatype line =
     (let pt = py_find line '' '' in
      if pt > 0 then
        (if slice line (nat (pt + 1)) (nat (pt + 8)) = CONST_DEFAULT
         then slice line 0 (nat (pt + 1)) @ CONST_DATATYPE_TEXT @ drop (nat (pt + 1)) line
         else line)
      else line)"

text \<open>Lines 122 to 126: what is done to a line before the boolean step.\<close>

definition rewrite_before_boolean :: "string \<Rightarrow> string" where
  "rewrite_before_boolean raw =
     (let line = py_replace [CHR 0x0D] '''' raw;
          line = py_strip (py_replace [CHR 0x09] '' '' line) @ ''\<newline>'';
          line = py_replace [CHR 0x22] '''' line;
          line = py_replace CONST_DATATYPE_DATEIME CONST_DATATYPE_TIMESTAMP line
      in py_replace CONST_UNSIGNED '''' line)"

text \<open>Lines 133 to 145: what is done to it after the boolean step.\<close>

definition rewrite_after_boolean :: "string \<Rightarrow> string" where
  "rewrite_after_boolean line =
     (let line = py_replace CONST_DATATYPE_ENUM CONST_DATATYPE_TEXT line;
          line = py_replace CONST_DATATYPE_YEAR CONST_DATATYPE_TEXT line;
          line = py_replace CONST_DATATYPE_INT_DEFAULT (CONST_DATATYPE_INTEGER @ '' DEFAULT'') line;
          line = py_replace CONST_DATATYPE_MEDIUMINT CONST_DATATYPE_INTEGER line;
          line = py_replace CONST_DATATYPE_TINYINT CONST_DATATYPE_SMALLINT line;
          line = py_replace CONST_DATATYPE_BLOB CONST_DATATYPE_BYTEA line
      in patch_missing_datatype line)"

text \<open>Lines 122 to 145: the three parts in their order.\<close>

definition rewrite_line :: "string \<Rightarrow> string" where
  "rewrite_line raw = rewrite_after_boolean (rewrite_boolean (rewrite_before_boolean raw))"

section \<open>The state of the main loop\<close>

text \<open>
  The module-level variables that live across iterations.  \<open>a_line\<close> is \<open>None\<close> while the
  name is unbound: the script first binds it in the finalization of a table block.
  \<open>postgres_f\<close> is the sequence of strings written to the output file so far.  (The flag
  \<open>foundTransaction\<close> is never read or written after its initialisation and is left out.)
\<close>

record state =
  tableCount :: nat
  currentTableName :: string
  foundTable :: bool
  foundView :: bool
  foundTrigger :: bool
  buffer :: "string list"
  fk_buffer :: "(string \<times> string) list"
  a_line :: "string option"
  postgres_f :: "string list"

definition init_state :: state where
  "init_state = \<lparr>tableCount = 0, currentTableName = '''', foundTable = False,
     foundView = False, foundTrigger = False, buffer = [], fk_buffer = [],
     a_line = None, postgres_f = []\<rparr>"

datatype error = NameError

section \<open>Finalization of a table block (lines 185 to 243)\<close>

text \<open>
  Lines 195 to 207 for one buffered line: the field name of an autoincrementing primary key,
  if the line names one (the name may be empty).
\<close>

definition pk_field_of :: "string \<Rightarrow> string option" where
  "pk_field_of a =
     (let pt1 = py_find a CONST_PRIMARY_KEY in
      if pt1 \<ge> 0 then
        (let pt1' = pt1 + int (length CONST_PRIMARY_KEY);
             pt2 = py_find_from a '' '' (nat pt1') in
         if pt2 \<ge> pt1' then
           (if py_find a CONST_AUTOINCREMENT \<ge> 0 then Some (slice a (nat pt1') (nat pt2))
            else None)
         else None)
      else None)"

text \<open>
  Lines 190 to 213: the first buffered line that names such a key is blanked and the scan
  stops; the result is the new buffer and \<open>pk_field_name\<close>.
\<close>

fun blank_primary_key :: "string list \<Rightarrow> string list \<times> string" where
  "blank_primary_key [] = ([], '''')"
| "blank_primary_key (a # rest) =
     (case pk_field_of a of
        Some name \<Rightarrow> ('''' # rest, name)
      | None \<Rightarrow> (case blank_primary_key rest of (rest', name) \<Rightarrow> (a # rest', name)))"

text \<open>Lines 219 to 224: the first line that contains the field name is rewritten.\<close>

fun rewrite_pk_field :: "string \<Rightarrow> string list \<Rightarrow> string list" where
  "rewrite_pk_field pk_field_name [] = []"
| "rewrite_pk_field pk_field_name (a # rest) =
     (if py_find a pk_field_name \<ge> 0 then modify_primary_key_syntax a # rest
      else a # rewrite_pk_field pk_field_name rest)"

text \<open>Lines 190 to 224 together: the primary-key rewrite of the buffer.\<close>

definition rewrite_primary_key :: "string list \<Rightarrow> string list" where
  "rewrite_primary_key buf =
     (let (buf1, pk_field_name) = blank_primary_key buf
      in if pk_field_name \<noteq> '''' then rewrite_pk_field pk_field_name buf1 else buf1)"

text \<open>Line 232: the replacement for a line that ends with a comma.\<close>

definition strip_trailing_comma :: "string \<Rightarrow> string" where
  "strip_trailing_comma a =
     (if suffix '',\<newline>'' a then take (length a - 2) a @ ''\<newline>'' else a)"

text \<open>
  Lines 229 to 234, on the reversed buffer: the scan stops at the first line that is neither
  empty nor a terminator and drops its trailing comma.  The second component is the value
  that the loop variable \<open>a_line\<close> keeps afterwards: the line at which the scan stopped, else
  the last line visited; \<open>None\<close> when the buffer is empty and the loop body never runs.
\<close>

fun comma_scan :: "string list \<Rightarrow> string list \<times> string option" where
  "comma_scan [] = ([], None)"
| "comma_scan (a # rest) =
     (if a \<noteq> '''' \<and> \<not> prefix '');'' a then (strip_trailing_comma a # rest, Some a)
      else (case comma_scan rest of
              (rest', None) \<Rightarrow> (a # rest', Some a)
            | (rest', Some b) \<Rightarrow> (a # rest', Some b)))"

definition fix_trailing_comma :: "string list \<Rightarrow> string list \<times> string option" where
  "fix_trailing_comma buf = (case comma_scan (rev buf) of (r, a) \<Rightarrow> (rev r, a))"

text \<open>
  Lines 238 and 239: the lines that are not empty are written in their order.  The loop
  variable is \<open>a_line\<close> again, so after the loop it holds the last entry of the buffer;
  \<open>None\<close> when the buffer is empty and the loop body never runs.
\<close>

definition write_buffer :: "string list \<Rightarrow> string list \<times> string option" where
  "write_buffer buf =
     (filter (\<lambda>l. l \<noteq> '''') buf, if buf = [] then None else Some (last buf))"

text \<open>
  Lines 185 to 243.  The buffer is not cleared here (the next \<open>CREATE TABLE\<close> line resets
  it).  The loops of lines 190 and 219 bind \<open>a_line\<close> too, but whenever they run the later
  loops run as well and bind it again; the value that stays is that of the last loop that
  ran: the write loop, else the comma scan, else the value before.
\<close>

definition finalize_table :: "state \<Rightarrow> state" where
  "finalize_table st =
     (let buf2 = rewrite_primary_key (buffer st);
          (buf3, a) = fix_trailing_comma buf2;
          (written, b) = write_buffer buf3
      in st\<lparr>foundTable := False,
            buffer := buf3,
            a_line := (case b of
                         Some x \<Rightarrow> Some x
                       | None \<Rightarrow> (case a of None \<Rightarrow> a_line st | Some x \<Rightarrow> Some x)),
            postgres_f := postgres_f st @ written,
            currentTableName := '''',
            tableCount := tableCount st + 1\<rparr>)"

section \<open>One iteration of the main loop (lines 119 to 258)\<close>

text \<open>Lines 150 to 154.\<close>

definition open_table :: "string \<Rightarrow> state \<Rightarrow> state" where
  "open_table line st =
     (if prefix CONST_CREATE_TABLE line
      then st\<lparr>buffer := [], currentTableName := get_table_name line, foundTable := True\<rparr>
      else st)"

text \<open>Lines 159 to 162: the new state and the new value of \<open>line\<close>.\<close>

definition capture_fk :: "string \<Rightarrow> state \<Rightarrow> state \<times> string" where
  "capture_fk line st =
     (if py_find line CONST_FOREIGN_KEY \<ge> 0 \<and> currentTableName st \<noteq> ''''
      then (st\<lparr>fk_buffer := fk_buffer st @ [(currentTableName st, line)]\<rparr>, '''')
      else (st, line))"

text \<open>Lines 167 and 172.\<close>

definition mark_trigger_view :: "string \<Rightarrow> state \<Rightarrow> state" where
  "mark_trigger_view line st =
     (let st = (if prefix CONST_CREATE_TRIGGER_START line then st\<lparr>foundTrigger := True\<rparr> else st)
      in if prefix CONST_CREATE_VIEW_START line then st\<lparr>foundView := True\<rparr> else st)"

text \<open>
  Lines 179 to 258.  The trigger and view branches read \<open>a_line\<close>, not \<open>line\<close>; reading
  the unbound name raises \<open>NameError\<close>.
\<close>

definition route :: "string \<Rightarrow> state \<Rightarrow> error + state" where
  "route line st =
     (if foundTable st then
        (let st = st\<lparr>buffer := buffer st @ [line]\<rparr>
         in if prefix '');'' line then Inr (finalize_table st) else Inr st)
      else if foundTrigger st then
        (case a_line st of
           None \<Rightarrow> Inl NameError
         | Some a \<Rightarrow>
             Inr (if py_find a CONST_CREATE_TRIGGER_END \<ge> 0 then st\<lparr>foundTrigger := False\<rparr> else st))
      else if foundView st then
        (case a_line st of
           None \<Rightarrow> Inl NameError
         | Some a \<Rightarrow>
             Inr (if py_find a CONST_CREATE_VIEW_END \<ge> 0 then st\<lparr>foundView := False\<rparr> else st))
      else Inr (if line \<noteq> '''' then st\<lparr>postgres_f := postgres_f st @ [line]\<rparr> else st))"

definition process_line :: "state \<Rightarrow> string \<Rightarrow> error + state" where
  "process_line st raw =
     (let line = rewrite_line raw;
          st = open_table line st;
          (st, line) = capture_fk line st;
          st = mark_trigger_view line st
      in route line st)"

section \<open>The whole run\<close>

text \<open>
  The loop over the input lines.  An exception leaves the loop; the output file then holds
  what had been written before, which the error result carries along.
\<close>

fun process_lines :: "state \<Rightarrow> string list \<Rightarrow> error \<times> string list + state" where
  "process_lines st [] = Inr st"
| "process_lines st (raw # rest) =
     (case process_line st raw of
        Inl e \<Rightarrow> Inl (e, postgres_f st)
      | Inr st' \<Rightarrow> process_lines st' rest)"

text \<open>Lines 262 to 265 for one entry of \<open>fk_buffer\<close>.\<close>

definition alter_table_line :: "string \<times> string \<Rightarrow> string" where
  "alter_table_line fk =
     (let a = snd fk;
          a = (if prefix [CHR 0x09] a then drop 1 a else a);
          a = (if suffix '',\<newline>'' a then take (length a - 2) a @ '';\<newline>'' else a)
      in ''ALTER TABLE '' @ fst fk @ '' ADD '' @ a)"

text \<open>Lines 260 to 267: after the loop, the deferred constraints and the commit.\<close>

definition finish :: "state \<Rightarrow> string list" where
  "finish st = postgres_f st @ map alter_table_line (fk_buffer st) @ [''COMMIT;\<newline>'']"

definition run :: "string list \<Rightarrow> error \<times> string list + string list" where
  "run lines =
     (case process_lines init_state lines of
        Inl e \<Rightarrow> Inl e
      | Inr st \<Rightarrow> Inr (finish st))"

section \<open>Invariants of the loop state\<close>

text \<open>A table name is held only while a table block is open.\<close>

definition table_name_inv :: "state \<Rightarrow> bool" where
  "table_name_inv st \<longleftrightarrow> (foundTable st \<or> currentTableName st = '''')"

text \<open>\<open>a_line\<close> is unbound exactly as long as no table block has been finalized.\<close>

definition a_line_inv :: "state \<Rightarrow> bool" where
  "a_line_inv st \<longleftrightarrow> (a_line st = None) = (tableCount st = 0)"

section \<open>Keywords that cannot overlap\<close>

text \<open>
  Two strings are separate when neither occurs in the other and no proper piece at the
  start or the end of the first is the end or the start of the second.  An occurrence of
  \<open>p\<close> then never shares characters with an occurrence of \<open>x\<close>.
\<close>

definition separate :: "string \<Rightarrow> string \<Rightarrow> bool" where
  "separate p x \<longleftrightarrow>
     \<not> sublist p x \<and> \<not> sublist x p \<and>
     list_all (\<lambda>k. \<not> suffix (take k p) x \<and> \<not> prefix (drop k p) x) [1..<length p]"

section \<open>Lines that carry none of the rewritten tokens\<close>

text \<open>
  A line that ends with its newline, has no white space around its text, holds no carriage
  return, tab or double quote, none of the renamed keywords, and no \<open>DEFAUL\<close> after two
  spaces.
\<close>

definition plain_line :: "string \<Rightarrow> bool" where
  "plain_line l \<longleftrightarrow>
     l \<noteq> [] \<and> last l = CHR 0x0A \<and> butlast l \<noteq> [] \<and>
     \<not> is_space (hd l) \<and> \<not> is_space (last (butlast l)) \<and>
     CHR 0x0D \<notin> set l \<and> CHR 0x09 \<notin> set l \<and> CHR 0x22 \<notin> set l \<and>
     list_all (\<lambda>k. \<not> sublist k l)
       [CONST_DATATYPE_DATEIME, CONST_UNSIGNED, CONST_DATATYPE_BOOLEAN, CONST_DATATYPE_ENUM,
        CONST_DATATYPE_YEAR, CONST_DATATYPE_INT_DEFAULT, CONST_DATATYPE_MEDIUMINT,
        CONST_DATATYPE_TINYINT, CONST_DATATYPE_BLOB, '' '' @ CONST_DEFAULT]"

section \<open>Facts about the string primitives\<close>

lemma find_idx_None: "find_idx sub s = None \<longleftrightarrow> \<not> sublist sub s"
  by (induction s) (auto simp: sublist_Cons_right split: option.splits)

lemma py_find_nonneg: "py_find s sub \<ge> 0 \<longleftrightarrow> sublist sub s"
  using find_idx_None [of sub s] by (auto simp: py_find_def split: option.splits)

lemma py_replace_absent: "\<not> sublist (a # as) s \<Longrightarrow> py_replace (a # as) new s = s"
  by (induction s) (auto simp: sublist_Cons_right)

lemma set_py_replace: "set (py_replace (a # as) new s) \<subseteq> set s \<union> set new"
proof (induction "a # as" new s rule: py_replace.induct)
  case (2 new)
  then show ?case by simp
next
  case (3 new c cs)
  show ?case
  proof (cases "prefix (a # as) (c # cs)")
    case True
    with 3 have "set (py_replace (a # as) new (drop (length as) cs))
        \<subseteq> set (drop (length as) cs) \<union> set new"
      by simp
    moreover have "set (drop (length as) cs) \<subseteq> set cs"
      by (rule set_drop_subset)
    ultimately show ?thesis using True by auto
  next
    case False
    with 3 show ?thesis by auto
  qed
qed

section \<open>Facts about the finalization and the loop\<close>

lemma process_lines_append:
  "process_lines st (xs @ ys) =
     (case process_lines st xs of Inl e \<Rightarrow> Inl e | Inr st' \<Rightarrow> process_lines st' ys)"
  by (induction xs arbitrary: st) (auto split: sum.splits)

lemma length_blank_primary_key: "length (fst (blank_primary_key buf)) = length buf"
  by (induction buf) (auto split: option.splits prod.splits)

lemma length_rewrite_pk_field: "length (rewrite_pk_field n buf) = length buf"
  by (induction buf) auto

lemma comma_scan_length: "length (fst (comma_scan r)) = length r"
  by (induction r) (auto split: option.splits prod.splits)

lemma comma_scan_Some: "r \<noteq> [] \<Longrightarrow> snd (comma_scan r) \<noteq> None"
  by (induction r) (auto split: option.splits prod.splits)

lemma fix_trailing_comma_Some: "buf \<noteq> [] \<Longrightarrow> snd (fix_trailing_comma buf) \<noteq> None"
  using comma_scan_Some [of "rev buf"]
  by (auto simp: fix_trailing_comma_def split: prod.splits)

section \<open>Replacement and separate keywords\<close>

lemma separate_take: "separate p x \<Longrightarrow> 0 < k \<Longrightarrow> k < length p \<Longrightarrow> \<not> suffix (take k p) x"
  by (auto simp: separate_def list_all_iff)

lemma separate_drop: "separate p x \<Longrightarrow> 0 < k \<Longrightarrow> k < length p \<Longrightarrow> \<not> prefix (drop k p) x"
  by (auto simp: separate_def list_all_iff)

lemma separate_append:
  assumes "separate p x"
  shows "sublist p (x @ z) \<longleftrightarrow> sublist p z"
proof
  assume "sublist p (x @ z)"
  then consider "sublist p x" | "sublist p z"
    | p1 p2 where "p = p1 @ p2" "suffix p1 x" "prefix p2 z"
    by (auto simp: sublist_append)
  then show "sublist p z"
  proof cases
    case 1
    with assms show ?thesis by (simp add: separate_def)
  next
    case 2
    then show ?thesis .
  next
    case 3
    show ?thesis
    proof (cases "p1 = []")
      case True
      with 3 show ?thesis by auto
    next
      case False
      show ?thesis
      proof (cases "p2 = []")
        case True
        with 3 have "sublist p x" by auto
        with assms show ?thesis by (simp add: separate_def)
      next
        case p2: False
        have "take (length p1) p = p1" using 3(1) by simp
        moreover have "0 < length p1" "length p1 < length p"
          using False p2 3(1) by auto
        ultimately show ?thesis
          using separate_take [OF assms, of "length p1"] 3(2) by simp
      qed
    qed
  qed
next
  assume "sublist p z"
  then show "sublist p (x @ z)"
    by (metis sublist_append)
qed

text \<open>A non-empty tail of \<open>p\<close> is not a prefix of \<open>x\<close>, nor \<open>x\<close> a prefix of it.\<close>

lemma separate_tail:
  assumes "separate p x" and "suffix q p" and "q \<noteq> []"
  shows "\<not> prefix q x" and "\<not> prefix x q"
proof -
  from assms(2) obtain r where r: "p = r @ q" by (auto simp: suffix_def)
  show "\<not> prefix q x"
  proof (cases "r = []")
    case True
    with r assms(1) show ?thesis by (auto simp: separate_def)
  next
    case False
    have "drop (length r) p = q" using r by simp
    moreover have "0 < length r" "length r < length p" using False r assms(3) by auto
    ultimately show ?thesis using separate_drop [OF assms(1), of "length r"] by simp
  qed
  show "\<not> prefix x q"
  proof
    assume "prefix x q"
    then have "sublist x q" by simp
    moreover have "sublist q p" using assms(2) by simp
    ultimately have "sublist x p" using sublist_order.order_trans by blast
    with assms(1) show False by (simp add: separate_def)
  qed
qed

lemma prefix_through_replace:
  assumes "separate p new"
  shows "suffix q p \<Longrightarrow> prefix q (py_replace (a # as) new s) \<Longrightarrow> prefix q s"
proof (induction q arbitrary: s)
  case Nil
  then show ?case by simp
next
  case (Cons x q)
  have tail: "suffix q p" using Cons.prems(1) by (rule suffix_ConsD)
  show ?case
  proof (cases s)
    case Nil
    with Cons.prems show ?thesis by simp
  next
    case (Cons c cs)
    show ?thesis
    proof (cases "prefix (a # as) (c # cs)")
      case True
      then have "prefix (x # q) (new @ py_replace (a # as) new (drop (length as) cs))"
        using Cons.prems(2) Cons by simp
      then have "prefix (x # q) new \<or> prefix new (x # q)"
        by (metis prefix_append prefixI)
      with separate_tail [OF assms \<open>suffix (x # q) p\<close>] show ?thesis by simp
    next
      case False
      with Cons.prems(2) Cons have "x = c" "prefix q (py_replace (a # as) new cs)" by auto
      with Cons.IH [OF tail] Cons show ?thesis by simp
    qed
  qed
qed

lemma prefix_into_replace:
  assumes "separate p (a # as)"
  shows "suffix q p \<Longrightarrow> prefix q s \<Longrightarrow> prefix q (py_replace (a # as) new s)"
proof (induction q arbitrary: s)
  case Nil
  then show ?case by simp
next
  case (Cons x q)
  have tail: "suffix q p" using Cons.prems(1) by (rule suffix_ConsD)
  from Cons.prems(2) obtain cs where s: "s = x # cs" and q: "prefix q cs"
    by (cases s) auto
  show ?case
  proof (cases "prefix (a # as) (x # cs)")
    case True
    with Cons.prems(2) s have "prefix (x # q) (a # as) \<or> prefix (a # as) (x # q)"
      using prefix_same_cases by blast
    with separate_tail [OF assms \<open>suffix (x # q) p\<close>] show ?thesis by blast
  next
    case False
    with Cons.IH [OF tail q] s show ?thesis by auto
  qed
qed

lemma sublist_in_right: "sublist p z \<Longrightarrow> sublist p (x @ z)"
  unfolding sublist_def by (metis append.assoc)

lemma replace_at_match:
  assumes "prefix (a # as) (c # cs)"
  obtains rest where "c # cs = (a # as) @ rest" "drop (length as) cs = rest"
    "py_replace (a # as) new (c # cs) = new @ py_replace (a # as) new rest"
proof -
  from assms obtain rest where "cs = as @ rest" "a = c" by (auto simp: prefix_def)
  then show ?thesis using that [of rest] by simp
qed

lemma replace_at_no_match:
  "\<not> prefix (a # as) (c # cs)
    \<Longrightarrow> py_replace (a # as) new (c # cs) = c # py_replace (a # as) new cs"
  by auto

text \<open>A replacement neither creates nor destroys an occurrence of a separate keyword.\<close>

lemma replace_creates_none:
  "separate p new \<Longrightarrow> sublist p (py_replace (a # as) new s) \<Longrightarrow> sublist p s"
proof (induction "a # as" new s rule: py_replace.induct)
  case (2 new)
  then show ?case by simp
next
  case (3 new c cs)
  note sep = "3.prems"(1)
  show ?case
  proof (cases "prefix (a # as) (c # cs)")
    case True
    then obtain rest where rest: "c # cs = (a # as) @ rest" "drop (length as) cs = rest"
      "py_replace (a # as) new (c # cs) = new @ py_replace (a # as) new rest"
      by (rule replace_at_match)
    from "3.prems"(2) have "sublist p (new @ py_replace (a # as) new rest)"
      by (simp only: rest(3))
    then have "sublist p (py_replace (a # as) new rest)"
      by (simp only: separate_append [OF sep])
    then have "sublist p rest"
      using "3.hyps"(1) [OF True sep] by (simp only: rest(2))
    then have "sublist p ((a # as) @ rest)" by (rule sublist_in_right)
    then show ?thesis by (simp only: rest(1))
  next
    case False
    note eq = replace_at_no_match [OF False, of new]
    from "3.prems"(2) have "sublist p (c # py_replace (a # as) new cs)"
      by (simp only: eq)
    then have "prefix p (c # py_replace (a # as) new cs) \<or> sublist p (py_replace (a # as) new cs)"
      by (simp only: sublist_Cons_right)
    then show ?thesis
    proof
      assume "prefix p (c # py_replace (a # as) new cs)"
      then have "prefix p (py_replace (a # as) new (c # cs))" by (simp only: eq)
      then have "prefix p (c # cs)"
        by (rule prefix_through_replace [OF sep suffix_order.order_refl])
      then show ?thesis by (rule prefix_imp_sublist)
    next
      assume "sublist p (py_replace (a # as) new cs)"
      then have "sublist p cs" by (rule "3.hyps"(2) [OF False sep])
      then show ?thesis by (simp add: sublist_Cons_right)
    qed
  qed
qed

lemma replace_destroys_none:
  "separate p (a # as) \<Longrightarrow> sublist p s \<Longrightarrow> sublist p (py_replace (a # as) new s)"
proof (induction "a # as" new s rule: py_replace.induct)
  case (2 new)
  then show ?case by simp
next
  case (3 new c cs)
  note sep = "3.prems"(1)
  show ?case
  proof (cases "prefix (a # as) (c # cs)")
    case True
    then obtain rest where rest: "c # cs = (a # as) @ rest" "drop (length as) cs = rest"
      "py_replace (a # as) new (c # cs) = new @ py_replace (a # as) new rest"
      by (rule replace_at_match)
    from "3.prems"(2) have "sublist p ((a # as) @ rest)"
      by (simp only: rest(1))
    then have "sublist p rest"
      by (simp only: separate_append [OF sep])
    then have "sublist p (py_replace (a # as) new rest)"
      using "3.hyps"(1) [OF True sep] by (simp only: rest(2))
    then have "sublist p (new @ py_replace (a # as) new rest)" by (rule sublist_in_right)
    then show ?thesis by (simp only: rest(3))
  next
    case False
    note eq = replace_at_no_match [OF False, of new]
    from "3.prems"(2) have "prefix p (c # cs) \<or> sublist p cs"
      by (simp only: sublist_Cons_right)
    then show ?thesis
    proof
      assume "prefix p (c # cs)"
      then have "prefix p (py_replace (a # as) new (c # cs))"
        by (rule prefix_into_replace [OF sep suffix_order.order_refl])
      then show ?thesis by (rule prefix_imp_sublist)
    next
      assume "sublist p cs"
      then have "sublist p (py_replace (a # as) new cs)" by (rule "3.hyps"(2) [OF False sep])
      then have "sublist p (c # py_replace (a # as) new cs)"
        by (simp add: sublist_Cons_right)
      then show ?thesis by (simp only: eq)
    qed
  qed
qed

text \<open>After the replacement no occurrence of the replaced keyword is left.\<close>

lemma replace_leaves_none:
  "separate (a # as) new \<Longrightarrow> \<not> sublist (a # as) (py_replace (a # as) new s)"
proof (induction "a # as" new s rule: py_replace.induct)
  case (2 new)
  then show ?case by simp
next
  case (3 new c cs)
  note sep = "3.prems"(1)
  show ?case
  proof (cases "prefix (a # as) (c # cs)")
    case True
    then obtain rest where rest: "c # cs = (a # as) @ rest" "drop (length as) cs = rest"
      "py_replace (a # as) new (c # cs) = new @ py_replace (a # as) new rest"
      by (rule replace_at_match)
    have "\<not> sublist (a # as) (py_replace (a # as) new rest)"
      using "3.hyps"(1) [OF True sep] unfolding rest(2) .
    then have "\<not> sublist (a # as) (new @ py_replace (a # as) new rest)"
      by (simp add: separate_append [OF sep])
    then show ?thesis unfolding rest(3) .
  next
    case False
    note eq = replace_at_no_match [OF False, of new]
    have "\<not> prefix (a # as) (py_replace (a # as) new (c # cs))"
      using prefix_through_replace [OF sep suffix_order.order_refl, of a as "c # cs"] False
      by blast
    then have "\<not> prefix (a # as) (c # py_replace (a # as) new cs)"
      unfolding eq .
    moreover have "\<not> sublist (a # as) (py_replace (a # as) new cs)"
      by (rule "3.hyps"(2) [OF False sep])
    ultimately have "\<not> sublist (a # as) (c # py_replace (a # as) new cs)"
      unfolding sublist_Cons_right by blast
    then show ?thesis unfolding eq .
  qed
qed

lemma separate_boolean_integer: "separate CONST_DATATYPE_BOOLEAN CONST_DATATYPE_INTEGER"
  by code_simp

lemma separate_true_one: "separate CONST_BOOL_TRUE ''1''"
  by code_simp

lemma separate_false_zero: "separate CONST_BOOL_FALSE ''0''"
  by code_simp

lemma separate_boolean_one: "separate CONST_DATATYPE_BOOLEAN ''1''"
  by code_simp

lemma separate_boolean_zero: "separate CONST_DATATYPE_BOOLEAN ''0''"
  by code_simp

lemma separate_true_boolean: "separate CONST_BOOL_TRUE CONST_DATATYPE_BOOLEAN"
  by code_simp

lemma separate_true_integer: "separate CONST_BOOL_TRUE CONST_DATATYPE_INTEGER"
  by code_simp

lemma separate_false_boolean: "separate CONST_BOOL_FALSE CONST_DATATYPE_BOOLEAN"
  by code_simp

lemma separate_false_integer: "separate CONST_BOOL_FALSE CONST_DATATYPE_INTEGER"
  by code_simp

lemma separate_false_true: "separate CONST_BOOL_FALSE CONST_BOOL_TRUE"
  by code_simp

lemma separate_false_one: "separate CONST_BOOL_FALSE ''1''"
  by code_simp

lemma replace_keeps:
  "old \<noteq> [] \<Longrightarrow> separate p old \<Longrightarrow> separate p new
    \<Longrightarrow> sublist p (py_replace old new s) = sublist p s"
  using replace_creates_none replace_destroys_none by (cases old) blast+

lemma replace_removes:
  "old \<noteq> [] \<Longrightarrow> separate old new \<Longrightarrow> \<not> sublist old (py_replace old new s)"
  using replace_leaves_none by (cases old) auto

lemma replace_adds_none:
  "old \<noteq> [] \<Longrightarrow> separate p new \<Longrightarrow> \<not> sublist p s
    \<Longrightarrow> \<not> sublist p (py_replace old new s)"
  using replace_creates_none by (cases old) blast+

lemma finalize_table_fields:
  "foundTable (finalize_table st) = False"
  "currentTableName (finalize_table st) = ''''"
  "tableCount (finalize_table st) = tableCount st + 1"
  "fk_buffer (finalize_table st) = fk_buffer st"
  "foundTrigger (finalize_table st) = foundTrigger st"
  "foundView (finalize_table st) = foundView st"
  by (simp_all add: finalize_table_def write_buffer_def Let_def split: prod.splits)

lemma length_rewrite_primary_key: "length (rewrite_primary_key buf) = length buf"
  using length_blank_primary_key [of buf]
  by (auto simp: rewrite_primary_key_def length_rewrite_pk_field split: prod.splits)

lemma finalize_table_a_line: "buffer st \<noteq> [] \<Longrightarrow> a_line (finalize_table st) \<noteq> None"
proof -
  assume "buffer st \<noteq> []"
  then have "rewrite_primary_key (buffer st) \<noteq> []"
    using length_rewrite_primary_key [of "buffer st"] by auto
  then have "snd (fix_trailing_comma (rewrite_primary_key (buffer st))) \<noteq> None"
    by (rule fix_trailing_comma_Some)
  then show ?thesis
    by (auto simp: finalize_table_def write_buffer_def Let_def split: prod.splits option.splits)
qed

lemma finalize_table_postgres_f:
  "\<exists>ws. postgres_f (finalize_table st) = postgres_f st @ ws"
  by (simp add: finalize_table_def write_buffer_def Let_def split: prod.splits)

lemma starts_trigger_not_table:
  "prefix CONST_CREATE_TRIGGER_START l \<Longrightarrow> \<not> prefix CONST_CREATE_TABLE l"
  by (auto simp: const_defs prefix_def)

lemma starts_view_not_table:
  "prefix CONST_CREATE_VIEW_START l \<Longrightarrow> \<not> prefix CONST_CREATE_TABLE l"
  by (auto simp: const_defs prefix_def)

lemma open_table_fields:
  "fk_buffer (open_table l st) = fk_buffer st"
  "postgres_f (open_table l st) = postgres_f st"
  "a_line (open_table l st) = a_line st"
  "tableCount (open_table l st) = tableCount st"
  "foundTrigger (open_table l st) = foundTrigger st"
  "foundView (open_table l st) = foundView st"
  by (simp_all add: open_table_def)

lemma open_table_inv: "table_name_inv st \<Longrightarrow> table_name_inv (open_table l st)"
  by (simp add: open_table_def table_name_inv_def)

lemma mark_trigger_view_fields:
  "fk_buffer (mark_trigger_view l st) = fk_buffer st"
  "postgres_f (mark_trigger_view l st) = postgres_f st"
  "a_line (mark_trigger_view l st) = a_line st"
  "tableCount (mark_trigger_view l st) = tableCount st"
  "foundTable (mark_trigger_view l st) = foundTable st"
  "currentTableName (mark_trigger_view l st) = currentTableName st"
  "buffer (mark_trigger_view l st) = buffer st"
  by (simp_all add: mark_trigger_view_def Let_def)

lemma mark_trigger_view_empty: "mark_trigger_view '''' st = st"
  by (simp add: mark_trigger_view_def const_defs)

text \<open>The two ways through one iteration: the line is captured as a constraint, or it is routed.\<close>

lemma process_line_captured:
  assumes "sublist CONST_FOREIGN_KEY (rewrite_line raw)"
    and "currentTableName (open_table (rewrite_line raw) st) \<noteq> ''''"
    and "table_name_inv st"
  shows "process_line st raw =
     Inr ((open_table (rewrite_line raw) st)
       \<lparr>fk_buffer := fk_buffer st @ [(currentTableName (open_table (rewrite_line raw) st), rewrite_line raw)],
        buffer := buffer (open_table (rewrite_line raw) st) @ ['''']\<rparr>)"
proof -
  let ?l = "rewrite_line raw"
  let ?s = "open_table ?l st"
  have ft: "foundTable ?s"
    using assms(2) open_table_inv [OF assms(3), of ?l] by (auto simp: table_name_inv_def)
  have cf: "capture_fk ?l ?s = (?s\<lparr>fk_buffer := fk_buffer ?s @ [(currentTableName ?s, ?l)]\<rparr>, '''')"
    using assms(1,2) by (simp add: capture_fk_def py_find_nonneg)
  show ?thesis
    using ft by (simp add: process_line_def Let_def cf mark_trigger_view_empty route_def open_table_fields)
qed

lemma process_line_not_captured:
  assumes "\<not> (sublist CONST_FOREIGN_KEY (rewrite_line raw)
              \<and> currentTableName (open_table (rewrite_line raw) st) \<noteq> '''')"
  shows "process_line st raw =
     route (rewrite_line raw) (mark_trigger_view (rewrite_line raw) (open_table (rewrite_line raw) st))"
proof -
  have "capture_fk (rewrite_line raw) (open_table (rewrite_line raw) st)
      = (open_table (rewrite_line raw) st, rewrite_line raw)"
    using assms by (auto simp: capture_fk_def py_find_nonneg)
  then show ?thesis by (simp add: process_line_def Let_def)
qed

lemma route_table_name_inv: "route l st = Inr st' \<Longrightarrow> table_name_inv st \<Longrightarrow> table_name_inv st'"
  by (auto simp: route_def table_name_inv_def finalize_table_fields Let_def split: if_splits option.splits)

lemma route_a_line_inv: "route l st = Inr st' \<Longrightarrow> a_line_inv st \<Longrightarrow> a_line_inv st'"
  by (auto simp: route_def a_line_inv_def finalize_table_fields finalize_table_a_line Let_def
      split: if_splits option.splits)

lemma process_line_table_name_inv:
  assumes "process_line st raw = Inr st'" "table_name_inv st"
  shows "table_name_inv st'"
proof (cases "sublist CONST_FOREIGN_KEY (rewrite_line raw)
              \<and> currentTableName (open_table (rewrite_line raw) st) \<noteq> ''''")
  case True
  then show ?thesis
    using assms process_line_captured [of raw st] open_table_inv [OF assms(2), of "rewrite_line raw"]
    by (auto simp: table_name_inv_def)
next
  case False
  have "table_name_inv (mark_trigger_view (rewrite_line raw) (open_table (rewrite_line raw) st))"
    using open_table_inv [OF assms(2), of "rewrite_line raw"]
    by (simp add: table_name_inv_def mark_trigger_view_fields)
  then show ?thesis
    using assms(1) process_line_not_captured [OF False] route_table_name_inv by metis
qed

lemma process_line_a_line_inv:
  assumes "process_line st raw = Inr st'" "table_name_inv st" "a_line_inv st"
  shows "a_line_inv st'"
proof (cases "sublist CONST_FOREIGN_KEY (rewrite_line raw)
              \<and> currentTableName (open_table (rewrite_line raw) st) \<noteq> ''''")
  case True
  then show ?thesis
    using assms process_line_captured [of raw st]
    by (auto simp: a_line_inv_def open_table_fields)
next
  case False
  have "a_line_inv (mark_trigger_view (rewrite_line raw) (open_table (rewrite_line raw) st))"
    using assms(3) by (simp add: a_line_inv_def mark_trigger_view_fields open_table_fields)
  then show ?thesis
    using assms(1) process_line_not_captured [OF False] route_a_line_inv by metis
qed

lemma init_state_inv: "table_name_inv init_state" "a_line_inv init_state"
  by (simp_all add: table_name_inv_def a_line_inv_def init_state_def)

lemma process_lines_inv:
  "process_lines st xs = Inr st' \<Longrightarrow> table_name_inv st \<Longrightarrow> a_line_inv st
     \<Longrightarrow> table_name_inv st' \<and> a_line_inv st'"
proof (induction xs arbitrary: st)
  case Nil
  then show ?case by simp
next
  case (Cons x xs)
  then obtain s1 where s1: "process_line st x = Inr s1" "process_lines s1 xs = Inr st'"
    by (auto split: sum.splits)
  with Cons show ?case
    using process_line_table_name_inv process_line_a_line_inv by blast
qed

text \<open>Once a table block is open or \<open>a_line\<close> is bound, no later line can fail, and
  the queue of deferred constraints only grows at its end.\<close>

lemma route_ok:
  assumes "foundTable st \<or> a_line st \<noteq> None"
  shows "\<exists>st'. route l st = Inr st' \<and> (foundTable st' \<or> a_line st' \<noteq> None)
            \<and> fk_buffer st' = fk_buffer st"
proof (cases "foundTable st")
  case True
  have "a_line (finalize_table (st\<lparr>buffer := buffer st @ [l]\<rparr>)) \<noteq> None"
    by (rule finalize_table_a_line) simp
  with True show ?thesis
    by (simp add: route_def Let_def finalize_table_fields del: not_None_eq)
next
  case False
  with assms obtain a where "a_line st = Some a" by auto
  with False show ?thesis by (simp add: route_def)
qed

lemma process_line_ok:
  assumes "foundTable st \<or> a_line st \<noteq> None" and "table_name_inv st"
  shows "\<exists>st'. process_line st raw = Inr st' \<and> (foundTable st' \<or> a_line st' \<noteq> None)
            \<and> (\<exists>new. fk_buffer st' = fk_buffer st @ new)"
proof (cases "sublist CONST_FOREIGN_KEY (rewrite_line raw)
              \<and> currentTableName (open_table (rewrite_line raw) st) \<noteq> ''''")
  case True
  then have "foundTable (open_table (rewrite_line raw) st)"
    using open_table_inv [OF assms(2), of "rewrite_line raw"] by (auto simp: table_name_inv_def)
  then show ?thesis
    using True process_line_captured [of raw st] assms(2) by simp
next
  case False
  let ?s = "mark_trigger_view (rewrite_line raw) (open_table (rewrite_line raw) st)"
  have "foundTable ?s \<or> a_line ?s \<noteq> None"
    using assms(1) by (auto simp: mark_trigger_view_fields open_table_fields open_table_def)
  from route_ok [OF this, of "rewrite_line raw"] show ?thesis
    using process_line_not_captured [OF False]
    by (auto simp: mark_trigger_view_fields open_table_fields)
qed

lemma process_lines_ok:
  "foundTable st \<or> a_line st \<noteq> None \<Longrightarrow> table_name_inv st
    \<Longrightarrow> \<exists>st'. process_lines st xs = Inr st' \<and> (\<exists>later. fk_buffer st' = fk_buffer st @ later)"
proof (induction xs arbitrary: st)
  case Nil
  then show ?case by simp
next
  case (Cons x xs)
  from process_line_ok [OF Cons.prems, of x] obtain s1 new
    where s1: "process_line st x = Inr s1" "foundTable s1 \<or> a_line s1 \<noteq> None"
      "fk_buffer s1 = fk_buffer st @ new"
    by blast
  have "table_name_inv s1"
    using process_line_table_name_inv [OF s1(1) Cons.prems(2)] .
  from Cons.IH [OF s1(2) this] obtain st' later
    where "process_lines s1 xs = Inr st'" "fk_buffer st' = fk_buffer s1 @ later"
    by blast
  with s1 show ?case by simp
qed

text \<open>A rewritten line holds no tab.\<close>

lemma py_replace_char_gone: "c \<notin> set new \<Longrightarrow> c \<notin> set (py_replace [c] new s)"
  by (induction s) auto

lemma set_py_strip: "set (py_strip s) \<subseteq> set s"
proof -
  have "set (dropWhile is_space (rev (dropWhile is_space s))) \<subseteq> set (rev (dropWhile is_space s))"
    by (meson set_dropWhileD subsetI)
  moreover have "set (dropWhile is_space s) \<subseteq> set s"
    by (meson set_dropWhileD subsetI)
  ultimately show ?thesis by (auto simp: py_strip_def)
qed

lemma tab_replace: "CHR 0x09 \<notin> set s \<Longrightarrow> CHR 0x09 \<notin> set new \<Longrightarrow> CHR 0x09 \<notin> set (py_replace (a # as) new s)"
  using set_py_replace [of a as new s] by auto

lemma tab_rewrite_boolean: "CHR 0x09 \<notin> set s \<Longrightarrow> CHR 0x09 \<notin> set (rewrite_boolean s)"
  by (simp add: rewrite_boolean_def Let_def const_defs tab_replace)

lemma tab_patch: "CHR 0x09 \<notin> set s \<Longrightarrow> CHR 0x09 \<notin> set (patch_missing_datatype s)"
  by (auto simp: patch_missing_datatype_def Let_def slice_def const_defs dest: in_set_takeD in_set_dropD)

lemma rewrite_line_no_tab: "CHR 0x09 \<notin> set (rewrite_line raw)"
proof -
  have "CHR 0x09 \<notin> set (py_replace [CHR 0x09] '' '' (py_replace [CHR 0x0D] '''' raw))"
    by (rule py_replace_char_gone) simp
  then have "CHR 0x09 \<notin> set (py_strip (py_replace [CHR 0x09] '' '' (py_replace [CHR 0x0D] '''' raw)) @ ''\<newline>'')"
    using set_py_strip by fastforce
  then show ?thesis
    unfolding rewrite_line_def rewrite_before_boolean_def rewrite_after_boolean_def Let_def const_defs
    by (intro tab_patch tab_replace tab_rewrite_boolean) simp_all
qed

text \<open>While a table block is open, a line that is not its terminator is only buffered.\<close>

lemma process_line_in_open_block:
  assumes "foundTable st" and "\<not> prefix '');'' (rewrite_line raw)"
  shows "\<exists>st'. process_line st raw = Inr st' \<and> foundTable st' \<and> postgres_f st' = postgres_f st"
proof (cases "sublist CONST_FOREIGN_KEY (rewrite_line raw)
              \<and> currentTableName (open_table (rewrite_line raw) st) \<noteq> ''''")
  case True
  have "table_name_inv st" using assms(1) by (simp add: table_name_inv_def)
  from process_line_captured [OF _ _ this, of raw] True assms(1) show ?thesis
    by (auto simp: open_table_fields open_table_def)
next
  case False
  let ?s = "mark_trigger_view (rewrite_line raw) (open_table (rewrite_line raw) st)"
  have "foundTable ?s"
    using assms(1) by (simp add: mark_trigger_view_fields open_table_def)
  then show ?thesis
    using process_line_not_captured [OF False] assms(2)
    by (simp add: route_def Let_def mark_trigger_view_fields open_table_fields)
qed

text \<open>The reverse scan for the trailing comma.\<close>

lemma comma_scan_skip:
  "\<forall>x \<in> set r. x = '''' \<or> prefix '');'' x \<Longrightarrow> a \<noteq> '''' \<Longrightarrow> \<not> prefix '');'' a
    \<Longrightarrow> comma_scan (r @ a # rest) = (r @ strip_trailing_comma a # rest, Some a)"
  by (induction r) auto

lemma fix_trailing_comma_content:
  assumes "\<forall>x \<in> set post. x = '''' \<or> prefix '');'' x" and "l \<noteq> ''''" and "\<not> prefix '');'' l"
  shows "fix_trailing_comma (pre @ l # post) = (pre @ strip_trailing_comma l # post, Some l)"
proof -
  have "comma_scan (rev post @ l # rev pre) = (rev post @ strip_trailing_comma l # rev pre, Some l)"
    using assms by (intro comma_scan_skip) auto
  then show ?thesis by (simp add: fix_trailing_comma_def)
qed

lemma strip_trailing_comma_snoc: "strip_trailing_comma (b @ '',\<newline>'') = b @ ''\<newline>''"
  by (simp add: strip_trailing_comma_def suffix_def)

lemma strip_trailing_comma_single:
  assumes "\<not> suffix '',,\<newline>'' l"
  shows "\<not> suffix '',\<newline>'' (strip_trailing_comma l)"
proof (cases "suffix '',\<newline>'' l")
  case True
  then obtain b where b: "l = b @ '',\<newline>''" by (auto simp: suffix_def)
  with assms have "\<not> suffix '','' b" by (auto simp: suffix_def)
  then have "\<not> suffix '',\<newline>'' (b @ ''\<newline>'')" by (auto simp: suffix_def)
  then show ?thesis by (simp add: b strip_trailing_comma_snoc)
next
  case False
  then show ?thesis by (simp add: strip_trailing_comma_def)
qed

lemma py_strip_nonempty: "py_strip l \<noteq> '''' \<Longrightarrow> l \<noteq> ''''"
  by (auto simp: py_strip_def)

text \<open>The rewrites leave a plain line as it is.\<close>

lemma sublist_single: "sublist [c] s \<longleftrightarrow> c \<in> set s"
  by (induction s) (auto simp: sublist_Cons_right)

lemma py_replace_char_absent: "c \<notin> set s \<Longrightarrow> py_replace [c] new s = s"
  by (rule py_replace_absent) (simp add: sublist_single)

lemma py_strip_plain:
  assumes "body \<noteq> []" "\<not> is_space (hd body)" "\<not> is_space (last body)"
  shows "py_strip (body @ ''\<newline>'') = body"
proof -
  have "dropWhile is_space (body @ ''\<newline>'') = body @ ''\<newline>''"
    using assms(1,2) by (cases body) auto
  moreover have "dropWhile is_space (rev body) = rev body"
    using assms(1,3) by (cases "rev body") (auto simp: last_rev [symmetric] simp del: last_rev)
  ultimately show ?thesis
    by (simp add: py_strip_def is_space_def)
qed

lemma find_idx_Some: "find_idx sub s = Some i \<Longrightarrow> prefix sub (drop i s)"
proof (induction s arbitrary: i)
  case Nil
  then show ?case by (auto split: if_splits)
next
  case (Cons c cs)
  then show ?case by (auto split: if_splits option.splits)
qed

lemma patch_missing_datatype_plain:
  assumes "\<not> sublist ('' '' @ CONST_DEFAULT) l"
  shows "patch_missing_datatype l = l"
proof (cases "find_idx '' '' l")
  case None
  then show ?thesis by (simp add: patch_missing_datatype_def py_find_def)
next
  case (Some i)
  have "slice l (Suc i) (i + 8) \<noteq> CONST_DEFAULT"
  proof
    assume eq: "slice l (Suc i) (i + 8) = CONST_DEFAULT"
    have "slice l (Suc i) (i + 8) = take 7 (drop (Suc i) l)"
      by (simp add: slice_def drop_take)
    with eq have "prefix CONST_DEFAULT (drop (Suc i) l)"
      by (metis take_is_prefix)
    moreover from find_idx_Some [OF Some] obtain rest where "drop i l = CHR '' '' # rest"
      by (auto simp: prefix_def)
    moreover from this have "drop (Suc i) l = rest"
      by (metis drop_Suc list.sel(3) tl_drop)
    ultimately have "prefix ('' '' @ CONST_DEFAULT) (drop i l)" by simp
    then have "sublist ('' '' @ CONST_DEFAULT) (drop i l)" by (rule prefix_imp_sublist)
    then have "sublist ('' '' @ CONST_DEFAULT) l"
      using sublist_drop sublist_order.order_trans by blast
    with assms show False by simp
  qed
  then show ?thesis
    using Some by (simp add: patch_missing_datatype_def py_find_def Let_def nat_add_distrib)
qed

lemma rewrite_line_plain:
  assumes "plain_line l"
  shows "rewrite_line l = l"
proof -
  from assms have ne: "l \<noteq> []" and nl: "last l = CHR 0x0A" and body: "butlast l \<noteq> []"
    and hd: "\<not> is_space (hd l)" and lst: "\<not> is_space (last (butlast l))"
    and cr: "CHR 0x0D \<notin> set l" and tab: "CHR 0x09 \<notin> set l" and qu: "CHR 0x22 \<notin> set l"
    and kw: "\<not> sublist CONST_DATATYPE_DATEIME l" "\<not> sublist CONST_UNSIGNED l"
      "\<not> sublist CONST_DATATYPE_BOOLEAN l" "\<not> sublist CONST_DATATYPE_ENUM l"
      "\<not> sublist CONST_DATATYPE_YEAR l" "\<not> sublist CONST_DATATYPE_INT_DEFAULT l"
      "\<not> sublist CONST_DATATYPE_MEDIUMINT l" "\<not> sublist CONST_DATATYPE_TINYINT l"
      "\<not> sublist CONST_DATATYPE_BLOB l"
    and df: "\<not> sublist ('' '' @ CONST_DEFAULT) l"
    by (simp_all add: plain_line_def)
  have split: "l = butlast l @ ''\<newline>''"
    using ne nl by (metis append_butlast_last_id)
  have "hd (butlast l) = hd l" using body ne by (metis hd_append2 append_butlast_last_id)
  with hd have "\<not> is_space (hd (butlast l))" by simp
  from py_strip_plain [OF body this lst] have strip: "py_strip l @ ''\<newline>'' = l"
    using split by simp
  have bool: "rewrite_boolean l = l"
    using kw(3) by (simp add: rewrite_boolean_def py_find_nonneg)
  have rep: "py_replace CONST_DATATYPE_DATEIME CONST_DATATYPE_TIMESTAMP l = l"
    "py_replace CONST_UNSIGNED '''' l = l"
    "py_replace CONST_DATATYPE_ENUM CONST_DATATYPE_TEXT l = l"
    "py_replace CONST_DATATYPE_YEAR CONST_DATATYPE_TEXT l = l"
    "py_replace CONST_DATATYPE_INT_DEFAULT (CONST_DATATYPE_INTEGER @ '' DEFAULT'') l = l"
    "py_replace CONST_DATATYPE_MEDIUMINT CONST_DATATYPE_INTEGER l = l"
    "py_replace CONST_DATATYPE_TINYINT CONST_DATATYPE_SMALLINT l = l"
    "py_replace CONST_DATATYPE_BLOB CONST_DATATYPE_BYTEA l = l"
    using kw unfolding const_defs by (simp_all add: py_replace_absent)
  show ?thesis
    by (simp only: rewrite_line_def rewrite_before_boolean_def rewrite_after_boolean_def Let_def py_replace_char_absent [OF cr]
        py_replace_char_absent [OF tab] strip py_replace_char_absent [OF qu] rep bool
        patch_missing_datatype_plain [OF df])
qed

text \<open>A rewritten line keeps its newline, so it is never empty.\<close>

lemma replace_keeps_char:
  "c \<notin> set (a # as) \<Longrightarrow> c \<in> set s \<Longrightarrow> c \<in> set (py_replace (a # as) new s)"
proof (induction "a # as" new s rule: py_replace.induct)
  case (2 new)
  then show ?case by simp
next
  case (3 new c' cs)
  show ?case
  proof (cases "prefix (a # as) (c' # cs)")
    case True
    then obtain rest where rest: "c' # cs = (a # as) @ rest" "drop (length as) cs = rest"
      "py_replace (a # as) new (c' # cs) = new @ py_replace (a # as) new rest"
      by (rule replace_at_match)
    from "3.prems" rest(1) have "c \<in> set rest"
      by (metis Un_iff set_append)
    with "3.hyps"(1) [OF True "3.prems"(1)] have "c \<in> set (py_replace (a # as) new rest)"
      unfolding rest(2) by simp
    then show ?thesis unfolding rest(3) by simp
  next
    case False
    with 3 show ?thesis by auto
  qed
qed

lemma newline_replace:
  "CHR 0x0A \<notin> set old \<Longrightarrow> old \<noteq> [] \<Longrightarrow> CHR 0x0A \<in> set s
    \<Longrightarrow> CHR 0x0A \<in> set (py_replace old new s)"
  using replace_keeps_char by (cases old) blast+

lemma newline_rewrite_boolean: "CHR 0x0A \<in> set s \<Longrightarrow> CHR 0x0A \<in> set (rewrite_boolean s)"
  by (simp add: rewrite_boolean_def Let_def const_defs newline_replace)

lemma newline_patch: "CHR 0x0A \<in> set s \<Longrightarrow> CHR 0x0A \<in> set (patch_missing_datatype s)"
proof -
  assume a: "CHR 0x0A \<in> set s"
  have "set (take n s) \<union> set (drop n s) = set s" for n
    by (metis append_take_drop_id set_append)
  with a show ?thesis
    by (auto simp: patch_missing_datatype_def Let_def slice_def)
qed

lemma rewrite_line_newline: "CHR 0x0A \<in> set (rewrite_line raw)"
  unfolding rewrite_line_def rewrite_before_boolean_def rewrite_after_boolean_def Let_def const_defs
  by (intro newline_patch newline_replace newline_rewrite_boolean) simp_all

lemma rewrite_line_nonempty: "rewrite_line raw \<noteq> ''''"
  using rewrite_line_newline [of raw] by auto

text \<open>No rewritten line holds the boolean keyword.\<close>

lemma separate_boolean_text: "separate CONST_DATATYPE_BOOLEAN CONST_DATATYPE_TEXT"
  by code_simp

lemma separate_boolean_integer_default:
  "separate CONST_DATATYPE_BOOLEAN (CONST_DATATYPE_INTEGER @ '' DEFAULT'')"
  by code_simp

lemma separate_boolean_smallint: "separate CONST_DATATYPE_BOOLEAN CONST_DATATYPE_SMALLINT"
  by code_simp

lemma separate_boolean_bytea: "separate CONST_DATATYPE_BOOLEAN CONST_DATATYPE_BYTEA"
  by code_simp

lemma separate_insert:
  assumes "separate p x" and "sublist p (u @ x @ v)"
  shows "sublist p (u @ v)"
proof -
  from assms(2) consider "sublist p u" | "sublist p (x @ v)"
    | p1 p2 where "p = p1 @ p2" "suffix p1 u" "prefix p2 (x @ v)"
    by (auto simp: sublist_append)
  then show ?thesis
  proof cases
    case 1
    then show ?thesis by (metis sublist_append)
  next
    case 2
    then have "sublist p v" using separate_append [OF assms(1)] by simp
    then show ?thesis by (rule sublist_in_right)
  next
    case 3
    show ?thesis
    proof (cases "p2 = []")
      case True
      with 3 have "sublist p u" by auto
      then show ?thesis by (metis sublist_append)
    next
      case False
      have "suffix p2 p" using 3(1) by (simp add: suffix_def)
      from separate_tail [OF assms(1) this False] 3(3) show ?thesis
        by (metis prefix_append prefixI)
    qed
  qed
qed

lemma patch_adds_none:
  assumes "separate p CONST_DATATYPE_TEXT" and "\<not> sublist p s"
  shows "\<not> sublist p (patch_missing_datatype s)"
proof -
  have "\<not> sublist p (take n s @ CONST_DATATYPE_TEXT @ drop n s)" for n
    using separate_insert [OF assms(1), of "take n s" "drop n s"] assms(2) by auto
  then show ?thesis
    using assms(2) by (simp add: patch_missing_datatype_def Let_def slice_def)
qed

lemma rewrite_boolean_no_boolean: "\<not> sublist CONST_DATATYPE_BOOLEAN (rewrite_boolean s)"
proof (cases "sublist CONST_DATATYPE_BOOLEAN s")
  case False
  then show ?thesis by (simp add: rewrite_boolean_def py_find_nonneg)
next
  case True
  let ?s1 = "py_replace CONST_DATATYPE_BOOLEAN CONST_DATATYPE_INTEGER s"
  have nb: "CONST_DATATYPE_BOOLEAN \<noteq> []" "CONST_BOOL_TRUE \<noteq> []" "CONST_BOOL_FALSE \<noteq> []"
    by (simp_all add: const_defs)
  have b: "\<not> sublist CONST_DATATYPE_BOOLEAN ?s1"
    by (rule replace_removes [OF nb(1) separate_boolean_integer])
  have "\<not> sublist CONST_DATATYPE_BOOLEAN (py_replace CONST_BOOL_TRUE ''1'' ?s1)"
    by (rule replace_adds_none [OF nb(2) separate_boolean_one b])
  moreover have "\<not> sublist CONST_DATATYPE_BOOLEAN (py_replace CONST_BOOL_FALSE ''0'' ?s1)"
    by (rule replace_adds_none [OF nb(3) separate_boolean_zero b])
  ultimately show ?thesis
    using b by (simp add: rewrite_boolean_def Let_def py_find_nonneg)
qed

lemma rewrite_line_no_boolean: "\<not> sublist CONST_DATATYPE_BOOLEAN (rewrite_line raw)"
  unfolding rewrite_line_def rewrite_before_boolean_def rewrite_after_boolean_def Let_def
  by (intro patch_adds_none replace_adds_none rewrite_boolean_no_boolean
      separate_boolean_text separate_boolean_integer_default separate_boolean_integer
      separate_boolean_smallint separate_boolean_bytea)
    (simp_all add: const_defs)

text \<open>Stripping and the early replacements keep an occurrence of a separate keyword.\<close>

lemma replace_keeps_occurrence:
  "old \<noteq> [] \<Longrightarrow> separate p old \<Longrightarrow> sublist p s \<Longrightarrow> sublist p (py_replace old new s)"
  using replace_destroys_none by (cases old) blast+

lemma dropWhile_keeps_occurrence:
  "p \<noteq> [] \<Longrightarrow> \<not> P (hd p) \<Longrightarrow> \<exists>u'. dropWhile P (u @ p @ v) = u' @ p @ v"
proof (induction u)
  case Nil
  then have "dropWhile P (p @ v) = p @ v" by (cases p) auto
  then show ?case by (metis append_Nil)
next
  case (Cons c u)
  then obtain u' where "dropWhile P (u @ p @ v) = u' @ p @ v" by blast
  then show ?case by (cases "P c") (auto intro: exI [of _ "c # u"])
qed

lemma py_strip_keeps_occurrence:
  assumes "sublist p s" and "p \<noteq> []" and "\<not> is_space (hd p)" and "\<not> is_space (last p)"
  shows "sublist p (py_strip s)"
proof -
  from assms(1) obtain u v where "s = u @ p @ v" by (auto simp: sublist_def)
  with dropWhile_keeps_occurrence [of p is_space u v] assms(2,3) obtain u'
    where a: "dropWhile is_space s = u' @ p @ v" by auto
  have "rev p \<noteq> []" "\<not> is_space (hd (rev p))"
    using assms(2,4) by (simp_all add: hd_rev)
  with dropWhile_keeps_occurrence [of "rev p" is_space "rev v" "rev u'"] obtain v'
    where "dropWhile is_space (rev v @ rev p @ rev u') = v' @ rev p @ rev u'" by auto
  then have "py_strip s = u' @ p @ rev v'"
    by (simp add: py_strip_def a)
  then show ?thesis by (auto simp: sublist_def)
qed

text \<open>A keyword of the boolean step that an input line holds is still there at that step.\<close>

lemma before_boolean_keeps:
  assumes "separate p [CHR 0x0D]" "separate p [CHR 0x09]" "separate p [CHR 0x22]"
    and "separate p CONST_DATATYPE_DATEIME" "separate p CONST_UNSIGNED"
    and "p \<noteq> []" "\<not> is_space (hd p)" "\<not> is_space (last p)"
    and "sublist p raw"
  shows "sublist p (rewrite_before_boolean raw)"
proof -
  let ?l1 = "py_replace [CHR 0x0D] '''' raw"
  let ?l2 = "py_strip (py_replace [CHR 0x09] '' '' ?l1) @ ''\<newline>''"
  let ?l3 = "py_replace [CHR 0x22] '''' ?l2"
  let ?l4 = "py_replace CONST_DATATYPE_DATEIME CONST_DATATYPE_TIMESTAMP ?l3"
  have 1: "sublist p ?l1"
    by (rule replace_keeps_occurrence [OF _ assms(1) assms(9)]) simp
  have "sublist p (py_replace [CHR 0x09] '' '' ?l1)"
    by (rule replace_keeps_occurrence [OF _ assms(2) 1]) simp
  then have "sublist p (py_strip (py_replace [CHR 0x09] '' '' ?l1))"
    using assms(6,7,8) by (intro py_strip_keeps_occurrence)
  then have 2: "sublist p ?l2"
    by (metis sublist_append)
  have 3: "sublist p ?l3"
    by (rule replace_keeps_occurrence [OF _ assms(3) 2]) simp
  have 4: "sublist p ?l4"
    by (rule replace_keeps_occurrence [OF _ assms(4) 3]) (simp add: const_defs)
  have "sublist p (py_replace CONST_UNSIGNED '''' ?l4)"
    by (rule replace_keeps_occurrence [OF _ assms(5) 4]) (simp add: const_defs)
  then show ?thesis
    by (simp add: rewrite_before_boolean_def Let_def)
qed

lemma before_boolean_keeps_boolean:
  "sublist CONST_DATATYPE_BOOLEAN raw \<Longrightarrow> sublist CONST_DATATYPE_BOOLEAN (rewrite_before_boolean raw)"
  by (erule before_boolean_keeps [rotated -1]) code_simp+

lemma before_boolean_keeps_true:
  "sublist CONST_BOOL_TRUE raw \<Longrightarrow> sublist CONST_BOOL_TRUE (rewrite_before_boolean raw)"
  by (erule before_boolean_keeps [rotated -1]) code_simp+

lemma before_boolean_keeps_false:
  "sublist CONST_BOOL_FALSE raw \<Longrightarrow> sublist CONST_BOOL_FALSE (rewrite_before_boolean raw)"
  by (erule before_boolean_keeps [rotated -1]) code_simp+

section \<open>Deferred foreign-key constraints\<close>

text \<open>
  Claim C1, as stated, fails when the open table block has no extracted name: the line
  \<open>CREATE TABLE rental (\<close> holds no \<open>EXISTS \<close>, the table name is empty, and the
  foreign-key line is neither removed from the block nor turned into an \<open>ALTER TABLE\<close> line.
\<close>

theorem foreign_key_in_unnamed_block_stays_inline:
  "run [''CREATE TABLE rental (\<newline>'',
        ''rental_id INTEGER NOT NULL,\<newline>'',
        ''FOREIGN KEY (cust_id) REFERENCES customer(id)\<newline>'',
        '');\<newline>'']
   = Inr [''CREATE TABLE rental (\<newline>'',
          ''rental_id INTEGER NOT NULL,\<newline>'',
          ''FOREIGN KEY (cust_id) REFERENCES customer(id)\<newline>'',
          '');\<newline>'',
          ''COMMIT;\<newline>'']"
  by code_simp

text \<open>
  Claim C1, amended: let a line whose rewritten form contains \<open>FOREIGN KEY\<close> be processed
  while a table block with a non-empty extracted name is open (\<open>name\<close> is the table name in
  effect for the line).  Then the line is replaced by an empty entry in the table block
  and nothing is written for it at that point; it is appended to the queue as one entry
  under \<open>name\<close>; the rest of the run cannot fail; and the output of the run is everything the
  loop wrote, then one \<open>ALTER TABLE\<close> line per queue entry in the order of capture (the
  entries captured before, this one, the later ones), then the commit.  The line has the
  form \<open>ALTER TABLE name ADD text\<close> where a trailing comma and newline of the text become
  a semicolon and newline.
\<close>

theorem foreign_key_line_deferred:
  assumes "process_lines init_state pre = Inr st"
    and "sublist CONST_FOREIGN_KEY (rewrite_line raw)"
    and "currentTableName (open_table (rewrite_line raw) st) = name"
    and "name \<noteq> ''''"
  shows "\<exists>st' stf later.
      process_line st raw = Inr st'
    \<and> buffer st' = buffer (open_table (rewrite_line raw) st) @ ['''']
    \<and> postgres_f st' = postgres_f st
    \<and> fk_buffer st' = fk_buffer st @ [(name, rewrite_line raw)]
    \<and> process_lines init_state (pre @ raw # post) = Inr stf
    \<and> fk_buffer stf = fk_buffer st @ (name, rewrite_line raw) # later
    \<and> run (pre @ raw # post) =
        Inr (postgres_f stf
             @ map alter_table_line (fk_buffer st)
             @ alter_table_line (name, rewrite_line raw) # map alter_table_line later
             @ [''COMMIT;\<newline>''])
    \<and> alter_table_line (name, rewrite_line raw) =
        ''ALTER TABLE '' @ name @ '' ADD '' @
          (if suffix '',\<newline>'' (rewrite_line raw)
           then take (length (rewrite_line raw) - 2) (rewrite_line raw) @ '';\<newline>''
           else rewrite_line raw)"
proof -
  let ?l = "rewrite_line raw"
  let ?s = "open_table ?l st"
  define st' where "st' = ?s\<lparr>fk_buffer := fk_buffer st @ [(name, ?l)], buffer := buffer ?s @ ['''']\<rparr>"
  have inv: "table_name_inv st"
    using process_lines_inv [OF assms(1)] init_state_inv by simp
  have step: "process_line st raw = Inr st'"
    using process_line_captured [OF assms(2) _ inv] assms(3,4) by (simp add: st'_def)
  have ft: "foundTable st'"
    using open_table_inv [OF inv, of ?l] assms(3,4) by (auto simp: st'_def table_name_inv_def)
  have inv': "table_name_inv st'"
    using ft by (simp add: table_name_inv_def)
  from process_lines_ok [of st' post] ft inv' obtain stf later
    where rest: "process_lines st' post = Inr stf" "fk_buffer stf = fk_buffer st' @ later"
    by blast
  have whole: "process_lines init_state (pre @ raw # post) = Inr stf"
    by (simp add: process_lines_append assms(1) step rest(1))
  have fk: "fk_buffer stf = fk_buffer st @ (name, ?l) # later"
    using rest(2) by (simp add: st'_def)
  have out: "run (pre @ raw # post) =
        Inr (postgres_f stf @ map alter_table_line (fk_buffer st)
             @ alter_table_line (name, ?l) # map alter_table_line later @ [''COMMIT;\<newline>''])"
    by (simp add: run_def whole finish_def fk)
  have "\<not> prefix [CHR 0x09] ?l"
    using rewrite_line_no_tab [of raw] by (auto simp: prefix_def)
  then have form: "alter_table_line (name, ?l) =
        ''ALTER TABLE '' @ name @ '' ADD '' @
          (if suffix '',\<newline>'' ?l then take (length ?l - 2) ?l @ '';\<newline>'' else ?l)"
    by (simp add: alter_table_line_def Let_def)
  have "buffer st' = buffer ?s @ ['''']" "postgres_f st' = postgres_f st"
    "fk_buffer st' = fk_buffer st @ [(name, ?l)]"
    by (simp_all add: st'_def open_table_fields)
  with step whole fk out form show ?thesis by blast
qed

text \<open>The scenario of the specification: a constraint inside the table \<open>rental\<close>.\<close>

theorem foreign_key_line_deferred_witness:
  "run [''CREATE TABLE IF NOT EXISTS rental (\<newline>'',
        ''rental_id INTEGER NOT NULL,\<newline>'',
        ''  FOREIGN KEY (cust_id) REFERENCES customer(id),\<newline>'',
        '');\<newline>'',
        ''INSERT INTO rental VALUES (1);\<newline>'']
   = Inr [''CREATE TABLE IF NOT EXISTS rental (\<newline>'',
          ''rental_id INTEGER NOT NULL\<newline>'',
          '');\<newline>'',
          ''INSERT INTO rental VALUES (1);\<newline>'',
          ''ALTER TABLE rental ADD FOREIGN KEY (cust_id) REFERENCES customer(id);\<newline>'',
          ''COMMIT;\<newline>'']"
proof -
  let ?pre = "[''CREATE TABLE IF NOT EXISTS rental (\<newline>'', ''rental_id INTEGER NOT NULL,\<newline>'']"
  let ?raw = "''  FOREIGN KEY (cust_id) REFERENCES customer(id),\<newline>''"
  let ?post = "['');\<newline>'', ''INSERT INTO rental VALUES (1);\<newline>'']"
  define st where "st = init_state\<lparr>currentTableName := ''rental'', foundTable := True,
     buffer := [''CREATE TABLE IF NOT EXISTS rental (\<newline>'', ''rental_id INTEGER NOT NULL,\<newline>'']\<rparr>"
  have h1: "process_lines init_state ?pre = Inr st"
    unfolding st_def by code_simp
  have h2: "sublist CONST_FOREIGN_KEY (rewrite_line ?raw)"
    by code_simp
  have h3: "currentTableName (open_table (rewrite_line ?raw) st) = ''rental''"
    unfolding st_def by code_simp
  have h4: "''rental'' \<noteq> ''''" by simp
  from foreign_key_line_deferred [OF h1 h2 h3 h4, of ?post] obtain stf later where
    a: "process_lines init_state (?pre @ ?raw # ?post) = Inr stf"
    and b: "fk_buffer stf = fk_buffer st @ (''rental'', rewrite_line ?raw) # later"
    and c: "run (?pre @ ?raw # ?post) =
        Inr (postgres_f stf @ map alter_table_line (fk_buffer st)
             @ alter_table_line (''rental'', rewrite_line ?raw) # map alter_table_line later
             @ [''COMMIT;\<newline>''])"
    by blast
  have d: "process_lines init_state (?pre @ ?raw # ?post) =
     Inr (init_state\<lparr>tableCount := 1,
           buffer := [''CREATE TABLE IF NOT EXISTS rental (\<newline>'', ''rental_id INTEGER NOT NULL\<newline>'', '''', '');\<newline>''],
           fk_buffer := [(''rental'', ''FOREIGN KEY (cust_id) REFERENCES customer(id),\<newline>'')],
           a_line := Some '');\<newline>'',
           postgres_f := [''CREATE TABLE IF NOT EXISTS rental (\<newline>'', ''rental_id INTEGER NOT NULL\<newline>'',
              '');\<newline>'', ''INSERT INTO rental VALUES (1);\<newline>'']\<rparr>)"
    by code_simp
  have e: "rewrite_line ?raw = ''FOREIGN KEY (cust_id) REFERENCES customer(id),\<newline>''"
    by code_simp
  have f: "alter_table_line (''rental'', ''FOREIGN KEY (cust_id) REFERENCES customer(id),\<newline>'')
     = ''ALTER TABLE rental ADD FOREIGN KEY (cust_id) REFERENCES customer(id);\<newline>''"
    by code_simp
  from a d have stf: "stf = init_state\<lparr>tableCount := 1,
           buffer := [''CREATE TABLE IF NOT EXISTS rental (\<newline>'', ''rental_id INTEGER NOT NULL\<newline>'', '''', '');\<newline>''],
           fk_buffer := [(''rental'', ''FOREIGN KEY (cust_id) REFERENCES customer(id),\<newline>'')],
           a_line := Some '');\<newline>'',
           postgres_f := [''CREATE TABLE IF NOT EXISTS rental (\<newline>'', ''rental_id INTEGER NOT NULL\<newline>'',
              '');\<newline>'', ''INSERT INTO rental VALUES (1);\<newline>'']\<rparr>"
    by simp
  have later: "later = []"
    using b by (simp add: stf st_def init_state_def e)
  show ?thesis
    using c by (simp add: later e f stf st_def init_state_def)
qed

section \<open>Row data\<close>

text \<open>
  Claim C2, as stated, fails: the replacements of lines 122 to 138 are applied to every
  line, data lines included.  Here the data of an \<open>INSERT\<close> line holds \<open>YEAR\<close> and
  \<open>BLOB\<close>, and the output holds \<open>TEXT\<close> and \<open>BYTEA\<close> in their place.
\<close>

theorem data_line_altered_by_rename:
  "run [''INSERT INTO film VALUES (1,'HAPPY NEW YEAR','BLOB');\<newline>'']
     = Inr [''INSERT INTO film VALUES (1,'HAPPY NEW TEXT','BYTEA');\<newline>'', ''COMMIT;\<newline>'']"
  by code_simp

text \<open>
  Claim C2, amended: a line processed while no table, trigger or view flag is set, and
  whose rewritten form starts none of the three statements, is written to the output as
  the result of the token rewrites, which apply to data lines as to any other line.  The
  line is written unchanged when it is plain: it ends with its newline, has no white space
  around its text, and holds no carriage return, tab or double quote, none of the keywords
  \<open>DATETIME\<close>, \<open>UNSIGNED\<close>, \<open>BOOLEAN\<close>, \<open>ENUM\<close>, \<open>YEAR\<close>, \<open>INT DEFAULT\<close>,
  \<open>MEDIUMINT\<close>, \<open>TINYINT\<close>, \<open>BLOB\<close>, and no \<open>DEFAUL\<close> after two spaces.
\<close>

theorem data_line_written_as_rewritten:
  assumes "process_lines init_state pre = Inr st"
    and "\<not> foundTable st" and "\<not> foundTrigger st" and "\<not> foundView st"
    and "\<not> prefix CONST_CREATE_TABLE (rewrite_line raw)"
    and "\<not> prefix CONST_CREATE_TRIGGER_START (rewrite_line raw)"
    and "\<not> prefix CONST_CREATE_VIEW_START (rewrite_line raw)"
  shows "process_line st raw = Inr (st\<lparr>postgres_f := postgres_f st @ [rewrite_line raw]\<rparr>)
    \<and> (plain_line raw \<longrightarrow> rewrite_line raw = raw)"
proof -
  let ?l = "rewrite_line raw"
  have "table_name_inv st"
    using process_lines_inv [OF assms(1)] init_state_inv by simp
  with assms(2) have name: "currentTableName st = ''''"
    by (simp add: table_name_inv_def)
  have ot: "open_table ?l st = st"
    using assms(5) by (simp add: open_table_def)
  have mk: "mark_trigger_view ?l st = st"
    using assms(6,7) by (simp add: mark_trigger_view_def)
  have "process_line st raw = route ?l st"
    using process_line_not_captured [of raw st] name by (simp add: ot mk)
  then have "process_line st raw = Inr (st\<lparr>postgres_f := postgres_f st @ [?l]\<rparr>)"
    using assms(2,3,4) rewrite_line_nonempty [of raw] by (simp add: route_def)
  then show ?thesis
    using rewrite_line_plain by blast
qed

text \<open>An \<open>INSERT\<close> line that meets the hypotheses and is plain.\<close>

theorem data_line_witness:
  "process_lines init_state [''BEGIN TRANSACTION;\<newline>'', ''INSERT INTO actor VALUES (1,'PENELOPE','GUINESS');\<newline>'']
     = Inr (init_state\<lparr>postgres_f := [''BEGIN TRANSACTION;\<newline>'',
                                          ''INSERT INTO actor VALUES (1,'PENELOPE','GUINESS');\<newline>'']\<rparr>)"
proof -
  let ?raw = "''INSERT INTO actor VALUES (1,'PENELOPE','GUINESS');\<newline>''"
  define st where "st = init_state\<lparr>postgres_f := [''BEGIN TRANSACTION;\<newline>'']\<rparr>"
  have h1: "process_lines init_state [''BEGIN TRANSACTION;\<newline>''] = Inr st"
    unfolding st_def by code_simp
  have h2: "\<not> foundTable st" and h3: "\<not> foundTrigger st" and h4: "\<not> foundView st"
    by (simp_all add: st_def init_state_def)
  have h5: "\<not> prefix CONST_CREATE_TABLE (rewrite_line ?raw)" by code_simp
  have h6: "\<not> prefix CONST_CREATE_TRIGGER_START (rewrite_line ?raw)" by code_simp
  have h7: "\<not> prefix CONST_CREATE_VIEW_START (rewrite_line ?raw)" by code_simp
  have p: "plain_line ?raw" by code_simp
  from data_line_written_as_rewritten [OF h1 h2 h3 h4 h5 h6 h7] p
  have "process_line st ?raw = Inr (st\<lparr>postgres_f := postgres_f st @ [?raw]\<rparr>)"
    by simp
  then have "process_lines st [?raw] = Inr (st\<lparr>postgres_f := postgres_f st @ [?raw]\<rparr>)"
    by simp
  then have "process_lines init_state ([''BEGIN TRANSACTION;\<newline>''] @ [?raw])
      = Inr (st\<lparr>postgres_f := postgres_f st @ [?raw]\<rparr>)"
    using h1 by (simp only: process_lines_append sum.case)
  then show ?thesis by (simp add: st_def)
qed

section \<open>Trigger and view blocks: the terminator check reads the stale \<open>a_line\<close>\<close>

text \<open>
  Claim C3 at a failing input.  The comments of the script say that a view is ignored
  until its \<open>;\<close>, but the check of line 256 reads \<open>a_line\<close> and not the current line.  After
  a table block \<open>a_line\<close> is the last line the write loop visited, the terminator \<open>);\<close>,
  which holds a semicolon before its newline.  So the view flag is cleared on the
  \<open>CREATE VIEW\<close> line itself, and the two other lines of the view block are written to
  the output.
\<close>

theorem view_body_written_to_output:
  "run [''CREATE TABLE IF NOT EXISTS actor (\<newline>'',
        ''actor_id INTEGER NOT NULL,\<newline>'',
        ''first_name VARCHAR(45) NOT NULL\<newline>'',
        '');\<newline>'',
        ''CREATE VIEW actor_names AS\<newline>'',
        ''SELECT actor_id, first_name\<newline>'',
        ''FROM actor;\<newline>'']
   = Inr [''CREATE TABLE IF NOT EXISTS actor (\<newline>'',
          ''actor_id INTEGER NOT NULL,\<newline>'',
          ''first_name VARCHAR(45) NOT NULL\<newline>'',
          '');\<newline>'',
          ''SELECT actor_id, first_name\<newline>'',
          ''FROM actor;\<newline>'',
          ''COMMIT;\<newline>'']"
  by code_simp

text \<open>
  Claim C4 at a failing input.  After the table \<open>actor\<close> the stale \<open>a_line\<close> is the
  terminator \<open>);\<close>, which holds no \<open>END;\<close>, so the check of line 252 never clears the
  trigger flag: the \<open>INSERT\<close> line that follows the end of the trigger block lies outside
  every block, and yet it is not written.
\<close>

theorem line_after_trigger_block_not_written:
  "run [''CREATE TABLE IF NOT EXISTS actor (\<newline>'',
        ''actor_id INTEGER NOT NULL,\<newline>'',
        ''first_name VARCHAR(45) NOT NULL\<newline>'',
        '');\<newline>'',
        ''CREATE TRIGGER actor_ai AFTER INSERT ON actor\<newline>'',
        ''BEGIN\<newline>'',
        ''UPDATE actor SET first_name = 1 WHERE rowid = new.rowid;\<newline>'',
        ''END;\<newline>'',
        ''INSERT INTO actor VALUES (1,2);\<newline>'']
   = Inr [''CREATE TABLE IF NOT EXISTS actor (\<newline>'',
          ''actor_id INTEGER NOT NULL,\<newline>'',
          ''first_name VARCHAR(45) NOT NULL\<newline>'',
          '');\<newline>'',
          ''COMMIT;\<newline>'']"
  by code_simp

section \<open>End of input inside a table block\<close>

text \<open>
  Claim C5, as stated, fails: the script has no check at the end of the input.  Here the
  block of \<open>payment\<close> is never closed; the run is not fatal and reports nothing, and it
  still emits the deferred constraint and the commit.  The buffered lines are lost.
\<close>

theorem unterminated_table_block_commits:
  "run [''CREATE TABLE IF NOT EXISTS payment (\<newline>'',
        ''payment_id INTEGER NOT NULL,\<newline>'',
        ''FOREIGN KEY (rental_id) REFERENCES rental(rental_id),\<newline>'',
        ''amount DECIMAL(5,2) NOT NULL\<newline>'']
   = Inr [''ALTER TABLE payment ADD FOREIGN KEY (rental_id) REFERENCES rental(rental_id);\<newline>'',
          ''COMMIT;\<newline>'']"
  by code_simp

text \<open>
  Claim C5, amended: when a table block is open and none of the remaining lines is a
  terminator (a rewritten line that starts with \<open>);\<close>), the run is not fatal.  The loop
  ends with the block still open, nothing more is written by the loop (the buffered lines
  of the block are dropped), and the run still emits one \<open>ALTER TABLE\<close> line for every
  queued constraint and then the commit.
\<close>

theorem unterminated_table_block_not_fatal:
  assumes "process_lines init_state pre = Inr st"
    and "foundTable st"
    and "\<forall>raw \<in> set post. \<not> prefix '');'' (rewrite_line raw)"
  shows "\<exists>stf. process_lines init_state (pre @ post) = Inr stf
    \<and> foundTable stf
    \<and> postgres_f stf = postgres_f st
    \<and> run (pre @ post) =
        Inr (postgres_f st @ map alter_table_line (fk_buffer stf) @ [''COMMIT;\<newline>''])"
proof -
  have "\<exists>stf. process_lines st post = Inr stf \<and> foundTable stf \<and> postgres_f stf = postgres_f st"
    using assms(2,3)
  proof (induction post arbitrary: st)
    case Nil
    then show ?case by simp
  next
    case (Cons x xs)
    from process_line_in_open_block [of st x] Cons.prems obtain s1
      where s1: "process_line st x = Inr s1" "foundTable s1" "postgres_f s1 = postgres_f st"
      by auto
    from Cons.IH [OF s1(2)] Cons.prems(2) obtain stf
      where "process_lines s1 xs = Inr stf" "foundTable stf" "postgres_f stf = postgres_f s1"
      by auto
    with s1 show ?case by simp
  qed
  then obtain stf where stf: "process_lines st post = Inr stf" "foundTable stf"
      "postgres_f stf = postgres_f st"
    by blast
  have "process_lines init_state (pre @ post) = Inr stf"
    by (simp add: process_lines_append assms(1) stf(1))
  then show ?thesis
    using stf by (simp add: run_def finish_def)
qed

text \<open>An input that meets the hypotheses: the dump ends inside the block of \<open>rental\<close>.\<close>

theorem unterminated_table_block_witness:
  "run [''BEGIN TRANSACTION;\<newline>'',
        ''CREATE TABLE IF NOT EXISTS rental (\<newline>'',
        ''rental_id INTEGER NOT NULL,\<newline>'',
        ''FOREIGN KEY (cust_id) REFERENCES customer(id),\<newline>'']
   = Inr [''BEGIN TRANSACTION;\<newline>'',
          ''ALTER TABLE rental ADD FOREIGN KEY (cust_id) REFERENCES customer(id);\<newline>'',
          ''COMMIT;\<newline>'']"
proof -
  let ?pre = "[''BEGIN TRANSACTION;\<newline>'', ''CREATE TABLE IF NOT EXISTS rental (\<newline>'']"
  let ?post = "[''rental_id INTEGER NOT NULL,\<newline>'', ''FOREIGN KEY (cust_id) REFERENCES customer(id),\<newline>'']"
  define st where "st = init_state\<lparr>currentTableName := ''rental'', foundTable := True,
     buffer := [''CREATE TABLE IF NOT EXISTS rental (\<newline>''],
     postgres_f := [''BEGIN TRANSACTION;\<newline>'']\<rparr>"
  have h1: "process_lines init_state ?pre = Inr st"
    unfolding st_def by code_simp
  have h2: "foundTable st" by (simp add: st_def)
  have h3: "\<forall>raw \<in> set ?post. \<not> prefix '');'' (rewrite_line raw)"
    by code_simp
  from unterminated_table_block_not_fatal [OF h1 h2 h3] obtain stf where
    a: "process_lines init_state (?pre @ ?post) = Inr stf"
    and b: "run (?pre @ ?post) =
        Inr (postgres_f st @ map alter_table_line (fk_buffer stf) @ [''COMMIT;\<newline>''])"
    by blast
  have "process_lines init_state (?pre @ ?post) =
     Inr (st\<lparr>buffer := [''CREATE TABLE IF NOT EXISTS rental (\<newline>'', ''rental_id INTEGER NOT NULL,\<newline>'', ''''],
             fk_buffer := [(''rental'', ''FOREIGN KEY (cust_id) REFERENCES customer(id),\<newline>'')]\<rparr>)"
    unfolding st_def by code_simp
  with a have fk: "fk_buffer stf = [(''rental'', ''FOREIGN KEY (cust_id) REFERENCES customer(id),\<newline>'')]"
    by simp
  have f: "alter_table_line (''rental'', ''FOREIGN KEY (cust_id) REFERENCES customer(id),\<newline>'')
     = ''ALTER TABLE rental ADD FOREIGN KEY (cust_id) REFERENCES customer(id);\<newline>''"
    by code_simp
  show ?thesis
    using b by (simp add: fk f st_def init_state_def)
qed

section \<open>The trailing comma before the terminator\<close>

text \<open>
  Claim C6, as stated, fails in its first part: exactly one comma is removed, so a last
  column line that ends with two commas is emitted with one, right before the terminator.
\<close>

theorem double_trailing_comma_keeps_one:
  "run [''CREATE TABLE IF NOT EXISTS actor (\<newline>'',
        ''actor_id INTEGER NOT NULL,\<newline>'',
        ''first_name VARCHAR(45) NOT NULL,,\<newline>'',
        '');\<newline>'']
   = Inr [''CREATE TABLE IF NOT EXISTS actor (\<newline>'',
          ''actor_id INTEGER NOT NULL,\<newline>'',
          ''first_name VARCHAR(45) NOT NULL,\<newline>'',
          '');\<newline>'',
          ''COMMIT;\<newline>'']"
  by code_simp

text \<open>
  Claim C6, amended: let the buffer, after the primary-key rewrite, be \<open>pre\<close>, then a line
  \<open>l\<close> that is not blank and not a terminator, then only deleted lines (empty entries) and
  terminator lines.  The finalization skips those, replaces \<open>l\<close> by \<open>l\<close> without one
  trailing comma if it ends with one (and by \<open>l\<close> itself otherwise), and leaves every other
  line of the block untouched; the block is written in its order without the empty entries.
  The line emitted for \<open>l\<close> ends with a comma only if \<open>l\<close> ended with two.
\<close>

theorem trailing_comma_removed_at_finalization:
  assumes "rewrite_primary_key (buffer st) = pre @ l # post"
    and "\<forall>x \<in> set post. x = '''' \<or> prefix '');'' x"
    and "py_strip l \<noteq> ''''"
    and "\<not> prefix '');'' l"
  shows "buffer (finalize_table st) = pre @ strip_trailing_comma l # post
    \<and> postgres_f (finalize_table st) =
        postgres_f st @ filter (\<lambda>x. x \<noteq> '''') pre @ strip_trailing_comma l # filter (\<lambda>x. x \<noteq> '''') post
    \<and> (\<forall>b. l = b @ '',\<newline>'' \<longrightarrow> strip_trailing_comma l = b @ ''\<newline>'')
    \<and> (\<not> suffix '',\<newline>'' l \<longrightarrow> strip_trailing_comma l = l)
    \<and> (\<not> suffix '',,\<newline>'' l \<longrightarrow> \<not> suffix '',\<newline>'' (strip_trailing_comma l))"
proof -
  have ne: "l \<noteq> ''''" using assms(3) by (rule py_strip_nonempty)
  have fixed: "fix_trailing_comma (rewrite_primary_key (buffer st))
      = (pre @ strip_trailing_comma l # post, Some l)"
    using fix_trailing_comma_content [OF assms(2) ne assms(4)] assms(1) by simp
  have kept: "strip_trailing_comma l \<noteq> ''''"
    using ne by (auto simp: strip_trailing_comma_def)
  have same: "\<not> suffix '',\<newline>'' l \<longrightarrow> strip_trailing_comma l = l"
    by (simp add: strip_trailing_comma_def)
  show ?thesis
    using fixed kept same strip_trailing_comma_single [of l]
    by (simp add: finalize_table_def write_buffer_def Let_def strip_trailing_comma_snoc)
qed

text \<open>A block that meets the hypotheses: a deleted line stands before the terminator.\<close>

theorem trailing_comma_witness:
  "buffer (finalize_table (init_state\<lparr>foundTable := True, currentTableName := ''actor'',
      buffer := [''CREATE TABLE IF NOT EXISTS actor (\<newline>'',
                 ''actor_id INTEGER NOT NULL,\<newline>'',
                 ''first_name VARCHAR(45) NOT NULL,\<newline>'',
                 '''',
                 '');\<newline>'']\<rparr>))
   = [''CREATE TABLE IF NOT EXISTS actor (\<newline>'',
      ''actor_id INTEGER NOT NULL,\<newline>'',
      ''first_name VARCHAR(45) NOT NULL\<newline>'',
      '''',
      '');\<newline>'']"
proof -
  let ?pre = "[''CREATE TABLE IF NOT EXISTS actor (\<newline>'', ''actor_id INTEGER NOT NULL,\<newline>'']"
  let ?l = "''first_name VARCHAR(45) NOT NULL,\<newline>''"
  let ?post = "['''', '');\<newline>'']"
  define st where "st = init_state\<lparr>foundTable := True, currentTableName := ''actor'',
      buffer := ?pre @ ?l # ?post\<rparr>"
  have h1: "rewrite_primary_key (buffer st) = ?pre @ ?l # ?post"
    unfolding st_def by code_simp
  have h2: "\<forall>x \<in> set ?post. x = '''' \<or> prefix '');'' x" by simp
  have h3: "py_strip ?l \<noteq> ''''" by code_simp
  have h4: "\<not> prefix '');'' ?l" by simp
  have e: "strip_trailing_comma ?l = ''first_name VARCHAR(45) NOT NULL\<newline>''" by code_simp
  from trailing_comma_removed_at_finalization [OF h1 h2 h3 h4]
  show ?thesis by (simp add: e st_def)
qed

section \<open>The boolean type and its literals\<close>

lemma keyword_nonempty:
  "CONST_DATATYPE_BOOLEAN \<noteq> []" "CONST_BOOL_TRUE \<noteq> []" "CONST_BOOL_FALSE \<noteq> []"
  by (simp_all add: const_defs)

text \<open>
  Claim C7, as stated, fails where it says that only one literal is rewritten per line:
  \<open>replace\<close> rewrites every occurrence.  This line holds \<open>TRUE\<close> twice and \<open>FALSE\<close> once;
  both \<open>TRUE\<close> literals become \<open>1\<close>, and the \<open>FALSE\<close> literal is not replaced with \<open>0\<close>.
\<close>

theorem boolean_line_two_literals_rewritten:
  "rewrite_line ''a BOOLEAN DEFAULT TRUE CHECK (a IN (TRUE, FALSE)),\<newline>''
     = ''a INTEGER DEFAULT 1 CHECK (a IN (1, FALSE)),\<newline>''"
  by code_simp

text \<open>
  Claim C7, amended: let the input line \<open>raw\<close> hold \<open>BOOLEAN\<close>.  The keyword is still
  there when the line reaches the boolean step (after the rewrites of lines 122 to 126),
  and the rewriter renames every occurrence to \<open>INTEGER\<close>: the rewritten line holds no
  \<open>BOOLEAN\<close>.  A \<open>TRUE\<close> or \<open>FALSE\<close> of the input line is still there at the boolean step
  too.  If the line holds \<open>TRUE\<close> at that step, every \<open>TRUE\<close> is replaced with \<open>1\<close> and
  \<open>FALSE\<close> is left as it is; if it holds \<open>FALSE\<close> and no \<open>TRUE\<close>, every \<open>FALSE\<close> is
  replaced with \<open>0\<close>; with neither, only the keyword is renamed.  So one of the two
  literals is rewritten per line, in all its occurrences.  In each case the rewritten line
  is the result of the later rewrites (lines 133 to 145) on that text.  In particular the
  line \<open>active BOOLEAN DEFAULT TRUE,\<close> becomes \<open>active INTEGER DEFAULT 1,\<close>.
\<close>

theorem boolean_type_and_literal_rewritten:
  assumes "sublist CONST_DATATYPE_BOOLEAN raw"
  shows "sublist CONST_DATATYPE_BOOLEAN (rewrite_before_boolean raw)
    \<and> \<not> sublist CONST_DATATYPE_BOOLEAN (rewrite_line raw)
    \<and> (sublist CONST_BOOL_TRUE raw \<longrightarrow> sublist CONST_BOOL_TRUE (rewrite_before_boolean raw))
    \<and> (sublist CONST_BOOL_FALSE raw \<longrightarrow> sublist CONST_BOOL_FALSE (rewrite_before_boolean raw))
    \<and> (sublist CONST_BOOL_TRUE (rewrite_before_boolean raw) \<longrightarrow>
          rewrite_line raw =
            rewrite_after_boolean
              (py_replace CONST_BOOL_TRUE ''1''
                (py_replace CONST_DATATYPE_BOOLEAN CONST_DATATYPE_INTEGER
                  (rewrite_before_boolean raw)))
        \<and> \<not> sublist CONST_DATATYPE_BOOLEAN
              (py_replace CONST_BOOL_TRUE ''1''
                (py_replace CONST_DATATYPE_BOOLEAN CONST_DATATYPE_INTEGER
                  (rewrite_before_boolean raw)))
        \<and> \<not> sublist CONST_BOOL_TRUE
              (py_replace CONST_BOOL_TRUE ''1''
                (py_replace CONST_DATATYPE_BOOLEAN CONST_DATATYPE_INTEGER
                  (rewrite_before_boolean raw)))
        \<and> sublist CONST_BOOL_FALSE
              (py_replace CONST_BOOL_TRUE ''1''
                (py_replace CONST_DATATYPE_BOOLEAN CONST_DATATYPE_INTEGER
                  (rewrite_before_boolean raw)))
            = sublist CONST_BOOL_FALSE (rewrite_before_boolean raw))
    \<and> (\<not> sublist CONST_BOOL_TRUE (rewrite_before_boolean raw)
         \<and> sublist CONST_BOOL_FALSE (rewrite_before_boolean raw) \<longrightarrow>
          rewrite_line raw =
            rewrite_after_boolean
              (py_replace CONST_BOOL_FALSE ''0''
                (py_replace CONST_DATATYPE_BOOLEAN CONST_DATATYPE_INTEGER
                  (rewrite_before_boolean raw)))
        \<and> \<not> sublist CONST_DATATYPE_BOOLEAN
              (py_replace CONST_BOOL_FALSE ''0''
                (py_replace CONST_DATATYPE_BOOLEAN CONST_DATATYPE_INTEGER
                  (rewrite_before_boolean raw)))
        \<and> \<not> sublist CONST_BOOL_FALSE
              (py_replace CONST_BOOL_FALSE ''0''
                (py_replace CONST_DATATYPE_BOOLEAN CONST_DATATYPE_INTEGER
                  (rewrite_before_boolean raw))))
    \<and> (\<not> sublist CONST_BOOL_TRUE (rewrite_before_boolean raw)
         \<and> \<not> sublist CONST_BOOL_FALSE (rewrite_before_boolean raw) \<longrightarrow>
          rewrite_line raw =
            rewrite_after_boolean
              (py_replace CONST_DATATYPE_BOOLEAN CONST_DATATYPE_INTEGER
                (rewrite_before_boolean raw)))
    \<and> rewrite_line ''active BOOLEAN DEFAULT TRUE,'' = ''active INTEGER DEFAULT 1,\<newline>''"
proof -
  let ?line = "rewrite_before_boolean raw"
  let ?line1 = "py_replace CONST_DATATYPE_BOOLEAN CONST_DATATYPE_INTEGER ?line"
  have there: "sublist CONST_DATATYPE_BOOLEAN ?line"
    using assms by (rule before_boolean_keeps_boolean)
  have t: "sublist CONST_BOOL_TRUE ?line1 = sublist CONST_BOOL_TRUE ?line"
    by (rule replace_keeps [OF keyword_nonempty(1) separate_true_boolean separate_true_integer])
  have f: "sublist CONST_BOOL_FALSE ?line1 = sublist CONST_BOOL_FALSE ?line"
    by (rule replace_keeps [OF keyword_nonempty(1) separate_false_boolean separate_false_integer])
  have b: "\<not> sublist CONST_DATATYPE_BOOLEAN ?line1"
    by (rule replace_removes [OF keyword_nonempty(1) separate_boolean_integer])
  have b1: "\<not> sublist CONST_DATATYPE_BOOLEAN (py_replace CONST_BOOL_TRUE ''1'' ?line1)"
    by (rule replace_adds_none [OF keyword_nonempty(2) separate_boolean_one b])
  have b0: "\<not> sublist CONST_DATATYPE_BOOLEAN (py_replace CONST_BOOL_FALSE ''0'' ?line1)"
    by (rule replace_adds_none [OF keyword_nonempty(3) separate_boolean_zero b])
  have t1: "\<not> sublist CONST_BOOL_TRUE (py_replace CONST_BOOL_TRUE ''1'' ?line1)"
    by (rule replace_removes [OF keyword_nonempty(2) separate_true_one])
  have f0: "\<not> sublist CONST_BOOL_FALSE (py_replace CONST_BOOL_FALSE ''0'' ?line1)"
    by (rule replace_removes [OF keyword_nonempty(3) separate_false_zero])
  have f1: "sublist CONST_BOOL_FALSE (py_replace CONST_BOOL_TRUE ''1'' ?line1)
      = sublist CONST_BOOL_FALSE ?line"
    using replace_keeps [OF keyword_nonempty(2) separate_false_true separate_false_one, of ?line1] f
    by simp
  have step: "rewrite_boolean ?line =
      (if sublist CONST_BOOL_TRUE ?line then py_replace CONST_BOOL_TRUE ''1'' ?line1
       else if sublist CONST_BOOL_FALSE ?line then py_replace CONST_BOOL_FALSE ''0'' ?line1
       else ?line1)"
    using there by (simp add: rewrite_boolean_def Let_def py_find_nonneg t f)
  have whole: "rewrite_line raw =
      rewrite_after_boolean
       (if sublist CONST_BOOL_TRUE ?line then py_replace CONST_BOOL_TRUE ''1'' ?line1
        else if sublist CONST_BOOL_FALSE ?line then py_replace CONST_BOOL_FALSE ''0'' ?line1
        else ?line1)"
    by (simp only: rewrite_line_def step)
  have kept: "sublist CONST_BOOL_TRUE raw \<longrightarrow> sublist CONST_BOOL_TRUE ?line"
    "sublist CONST_BOOL_FALSE raw \<longrightarrow> sublist CONST_BOOL_FALSE ?line"
    using before_boolean_keeps_true before_boolean_keeps_false by blast+
  have ex: "rewrite_line ''active BOOLEAN DEFAULT TRUE,'' = ''active INTEGER DEFAULT 1,\<newline>''"
    by code_simp
  show ?thesis
    using there b1 b0 t1 f0 f1 ex kept rewrite_line_no_boolean [of raw] by (simp add: whole)
qed

text \<open>A line that holds the keyword and \<open>FALSE\<close> but no \<open>TRUE\<close>, with tabs and quotes.\<close>

theorem boolean_rewrite_witness:
  "rewrite_line ([CHR 0x09, CHR 0x22] @ ''is_active'' @ [CHR 0x22, CHR 0x09]
                 @ ''BOOLEAN NOT NULL DEFAULT FALSE,\<newline>'')
     = ''is_active INTEGER NOT NULL DEFAULT 0,\<newline>''"
proof -
  let ?raw = "[CHR 0x09, CHR 0x22] @ ''is_active'' @ [CHR 0x22, CHR 0x09]
              @ ''BOOLEAN NOT NULL DEFAULT FALSE,\<newline>''"
  have h: "sublist CONST_DATATYPE_BOOLEAN ?raw" by code_simp
  have nt: "\<not> sublist CONST_BOOL_TRUE (rewrite_before_boolean ?raw)" by code_simp
  have fl: "sublist CONST_BOOL_FALSE (rewrite_before_boolean ?raw)" by code_simp
  have e: "rewrite_after_boolean
      (py_replace CONST_BOOL_FALSE ''0''
        (py_replace CONST_DATATYPE_BOOLEAN CONST_DATATYPE_INTEGER (rewrite_before_boolean ?raw)))
     = ''is_active INTEGER NOT NULL DEFAULT 0,\<newline>''"
    by code_simp
  from boolean_type_and_literal_rewritten [OF h] nt fl
  have "rewrite_line ?raw =
      rewrite_after_boolean
        (py_replace CONST_BOOL_FALSE ''0''
          (py_replace CONST_DATATYPE_BOOLEAN CONST_DATATYPE_INTEGER (rewrite_before_boolean ?raw)))"
    by blast
  with e show ?thesis by simp
qed

section \<open>Scenario: an autoincrementing primary key\<close>

text \<open>
  Claim C8, as stated, at its own input: the single line opens a table block (it starts with
  \<open>CREATE TABLE\<close>) but does not start with \<open>);\<close>, so the block is never finalized and
  nothing of it is written: the output is the commit alone and does not define \<open>id\<close>.
\<close>

theorem single_line_table_not_emitted:
  "run [''CREATE TABLE t (id INTEGER PRIMARY KEY AUTOINCREMENT, name TEXT);\<newline>'']
     = Inr [''COMMIT;\<newline>'']"
  by code_simp

text \<open>
  Claim C8, amended: when the same table is given in the shape that the table buffer frames
  (one line per column, the key named by a \<open>PRIMARY KEY(id AUTOINCREMENT)\<close> clause, the
  block closed by a line that starts with \<open>);\<close>), the output defines \<open>id\<close> immediately
  followed by \<open>SERIAL PRIMARY KEY\<close>, and no \<open>PRIMARY KEY(id\<close> clause remains.
\<close>

theorem multi_line_table_serial_primary_key:
  "run [''CREATE TABLE IF NOT EXISTS t (\<newline>'',
        ''id INTEGER NOT NULL,\<newline>'',
        ''name TEXT,\<newline>'',
        ''PRIMARY KEY(id AUTOINCREMENT)\<newline>'',
        '');\<newline>'']
     = Inr [''CREATE TABLE IF NOT EXISTS t (\<newline>'',
            ''id SERIAL PRIMARY KEY,\<newline>'',
            ''name TEXT\<newline>'',
            '');\<newline>'',
            ''COMMIT;\<newline>'']"
  by code_simp

section \<open>A foreign key in a table block without a name\<close>

text \<open>
  Claim C9, as stated, fails: the capture is guarded by \<open>currentTableName != ""\<close>.  The
  line \<open>CREATE TABLE store (\<close> yields the empty name, so the constraint is not queued and
  no \<open>ALTER TABLE\<close> line is emitted for it.
\<close>

theorem foreign_key_with_empty_table_name_no_alter_table:
  "run [''CREATE TABLE store (\<newline>'',
        ''store_id INTEGER NOT NULL,\<newline>'',
        ''address_id INTEGER NOT NULL,\<newline>'',
        ''CONSTRAINT fk_store_address FOREIGN KEY (address_id) REFERENCES address(address_id),\<newline>'',
        ''PRIMARY KEY(store_id AUTOINCREMENT)\<newline>'',
        '');\<newline>'']
   = Inr [''CREATE TABLE store (\<newline>'',
          ''store_id SERIAL PRIMARY KEY,\<newline>'',
          ''address_id INTEGER NOT NULL,\<newline>'',
          ''CONSTRAINT fk_store_address FOREIGN KEY (address_id) REFERENCES address(address_id)\<newline>'',
          '');\<newline>'',
          ''COMMIT;\<newline>'']"
  by code_simp

text \<open>
  Claim C9, amended: let a line whose rewritten form contains \<open>FOREIGN KEY\<close> be processed
  while the open table block has the empty name, the line being neither a new
  \<open>CREATE TABLE\<close> line nor the terminator.  The constraint is not stored in the queue, which
  is left as it was; the line is appended to the table block unchanged, as any other line
  of the block, and nothing is written at that point.  The rest of the run cannot fail,
  and the \<open>ALTER TABLE\<close> lines it emits are those of the queue as it was before the line,
  followed by those of the constraints that the later lines add: none for this line.
\<close>

theorem foreign_key_with_empty_table_name_kept_inline:
  assumes "process_lines init_state pre = Inr st"
    and "foundTable st"
    and "currentTableName st = ''''"
    and "sublist CONST_FOREIGN_KEY (rewrite_line raw)"
    and "\<not> prefix CONST_CREATE_TABLE (rewrite_line raw)"
    and "\<not> prefix '');'' (rewrite_line raw)"
  shows "\<exists>st' stf later.
      process_line st raw = Inr st'
    \<and> fk_buffer st' = fk_buffer st
    \<and> buffer st' = buffer st @ [rewrite_line raw]
    \<and> postgres_f st' = postgres_f st
    \<and> foundTable st' \<and> currentTableName st' = ''''
    \<and> process_lines st' post = Inr stf
    \<and> fk_buffer stf = fk_buffer st @ later
    \<and> run (pre @ raw # post) =
        Inr (postgres_f stf
             @ map alter_table_line (fk_buffer st)
             @ map alter_table_line later
             @ [''COMMIT;\<newline>''])"
proof -
  let ?l = "rewrite_line raw"
  have ot: "open_table ?l st = st"
    using assms(5) by (simp add: open_table_def)
  have "process_line st raw = route ?l (mark_trigger_view ?l st)"
    using process_line_not_captured [of raw st] assms(3) by (simp add: ot)
  then obtain st' where step: "process_line st raw = Inr st'"
    and same: "fk_buffer st' = fk_buffer st" "buffer st' = buffer st @ [?l]"
      "postgres_f st' = postgres_f st" "foundTable st'" "currentTableName st' = ''''"
    using assms(2,3,6) by (simp add: route_def Let_def mark_trigger_view_fields)
  have "table_name_inv st'"
    using same(4) by (simp add: table_name_inv_def)
  with process_lines_ok [of st' post] same(4) obtain stf later
    where rest: "process_lines st' post = Inr stf" "fk_buffer stf = fk_buffer st' @ later"
    by blast
  have "process_lines init_state (pre @ raw # post) = Inr stf"
    by (simp add: process_lines_append assms(1) step rest(1))
  then have "run (pre @ raw # post) =
        Inr (postgres_f stf @ map alter_table_line (fk_buffer st)
             @ map alter_table_line later @ [''COMMIT;\<newline>''])"
    using rest(2) same(1) by (simp add: run_def finish_def)
  with step same rest show ?thesis by auto
qed

text \<open>
  A run that meets the hypotheses: the block of \<open>store\<close> has no name, and the block of
  \<open>staff\<close> that follows has one.  Only the constraint of \<open>staff\<close> gets its line.
\<close>

theorem foreign_key_with_empty_table_name_witness:
  "run [''CREATE TABLE store (\<newline>'',
        ''FOREIGN KEY (address_id) REFERENCES address(address_id)\<newline>'',
        '');\<newline>'',
        ''CREATE TABLE IF NOT EXISTS staff (\<newline>'',
        ''staff_id INTEGER NOT NULL,\<newline>'',
        ''FOREIGN KEY (store_id) REFERENCES store(store_id)\<newline>'',
        '');\<newline>'']
   = Inr [''CREATE TABLE store (\<newline>'',
          ''FOREIGN KEY (address_id) REFERENCES address(address_id)\<newline>'',
          '');\<newline>'',
          ''CREATE TABLE IF NOT EXISTS staff (\<newline>'',
          ''staff_id INTEGER NOT NULL\<newline>'',
          '');\<newline>'',
          ''ALTER TABLE staff ADD FOREIGN KEY (store_id) REFERENCES store(store_id)\<newline>'',
          ''COMMIT;\<newline>'']"
proof -
  let ?pre = "[''CREATE TABLE store (\<newline>'']"
  let ?raw = "''FOREIGN KEY (address_id) REFERENCES address(address_id)\<newline>''"
  let ?post = "['');\<newline>'', ''CREATE TABLE IF NOT EXISTS staff (\<newline>'',
     ''staff_id INTEGER NOT NULL,\<newline>'',
     ''FOREIGN KEY (store_id) REFERENCES store(store_id)\<newline>'', '');\<newline>'']"
  define st where "st = init_state\<lparr>foundTable := True, buffer := [''CREATE TABLE store (\<newline>'']\<rparr>"
  have h1: "process_lines init_state ?pre = Inr st"
    unfolding st_def by code_simp
  have h2: "foundTable st" and h3: "currentTableName st = ''''"
    by (simp_all add: st_def init_state_def)
  have h4: "sublist CONST_FOREIGN_KEY (rewrite_line ?raw)" by code_simp
  have h5: "\<not> prefix CONST_CREATE_TABLE (rewrite_line ?raw)" by code_simp
  have h6: "\<not> prefix '');'' (rewrite_line ?raw)" by code_simp
  from foreign_key_with_empty_table_name_kept_inline [OF h1 h2 h3 h4 h5 h6, of ?post]
  obtain st' stf later where
    a: "process_line st ?raw = Inr st'"
    and b: "process_lines st' ?post = Inr stf"
    and c: "fk_buffer stf = fk_buffer st @ later"
    and d: "run (?pre @ ?raw # ?post) =
        Inr (postgres_f stf @ map alter_table_line (fk_buffer st)
             @ map alter_table_line later @ [''COMMIT;\<newline>''])"
    by blast
  have "process_lines st (?raw # ?post) = Inr stf"
    using a b by simp
  moreover have "process_lines st (?raw # ?post) =
     Inr (init_state\<lparr>tableCount := 2,
           buffer := [''CREATE TABLE IF NOT EXISTS staff (\<newline>'',
                      ''staff_id INTEGER NOT NULL\<newline>'', '''', '');\<newline>''],
           fk_buffer := [(''staff'', ''FOREIGN KEY (store_id) REFERENCES store(store_id)\<newline>'')],
           a_line := Some '');\<newline>'',
           postgres_f := [''CREATE TABLE store (\<newline>'',
              ''FOREIGN KEY (address_id) REFERENCES address(address_id)\<newline>'',
              '');\<newline>'',
              ''CREATE TABLE IF NOT EXISTS staff (\<newline>'',
              ''staff_id INTEGER NOT NULL\<newline>'',
              '');\<newline>'']\<rparr>)"
    unfolding st_def by code_simp
  ultimately have stf: "stf = init_state\<lparr>tableCount := 2,
           buffer := [''CREATE TABLE IF NOT EXISTS staff (\<newline>'',
                      ''staff_id INTEGER NOT NULL\<newline>'', '''', '');\<newline>''],
           fk_buffer := [(''staff'', ''FOREIGN KEY (store_id) REFERENCES store(store_id)\<newline>'')],
           a_line := Some '');\<newline>'',
           postgres_f := [''CREATE TABLE store (\<newline>'',
              ''FOREIGN KEY (address_id) REFERENCES address(address_id)\<newline>'',
              '');\<newline>'',
              ''CREATE TABLE IF NOT EXISTS staff (\<newline>'',
              ''staff_id INTEGER NOT NULL\<newline>'',
              '');\<newline>'']\<rparr>"
    by simp
  have later: "later = [(''staff'', ''FOREIGN KEY (store_id) REFERENCES store(store_id)\<newline>'')]"
    using c by (simp add: stf st_def init_state_def)
  have f: "alter_table_line (''staff'', ''FOREIGN KEY (store_id) REFERENCES store(store_id)\<newline>'')
     = ''ALTER TABLE staff ADD FOREIGN KEY (store_id) REFERENCES store(store_id)\<newline>''"
    by code_simp
  show ?thesis
    using d by (simp add: later f stf st_def init_state_def)
qed

section \<open>The unbound name in the trigger and view branches\<close>

text \<open>
  Claim C10: some inputs make the run fail with an undefined-variable error.  When a line
  that starts a trigger or a view is processed before any table block has been finalized
  (\<open>tableCount\<close> is still 0), the name \<open>a_line\<close> is unbound, since only the finalization
  binds it; the trigger or view branch is evaluated when no table block is open, and it
  then raises \<open>NameError\<close> on that very line.  The run ends there, with the error and what
  had been written before.
\<close>

theorem name_error_on_trigger_or_view_start:
  assumes "process_lines init_state pre = Inr st"
    and "tableCount st = 0"
    and "\<not> foundTable st"
    and "prefix CONST_CREATE_TRIGGER_START (rewrite_line raw)
         \<or> prefix CONST_CREATE_VIEW_START (rewrite_line raw)"
  shows "a_line st = None \<and> process_line st raw = Inl NameError
         \<and> run (pre @ raw # post) = Inl (NameError, postgres_f st)"
proof -
  let ?l = "rewrite_line raw"
  have inv: "table_name_inv st" "a_line_inv st"
    using process_lines_inv [OF assms(1)] init_state_inv by simp_all
  have unbound: "a_line st = None"
    using inv(2) assms(2) by (simp add: a_line_inv_def)
  have name: "currentTableName st = ''''"
    using inv(1) assms(3) by (simp add: table_name_inv_def)
  have nt: "\<not> prefix CONST_CREATE_TABLE ?l"
    using assms(4) starts_trigger_not_table starts_view_not_table by blast
  then have ot: "open_table ?l st = st"
    by (simp add: open_table_def)
  have "process_line st raw = route ?l (mark_trigger_view ?l st)"
    using process_line_not_captured [of raw st] name by (simp add: ot)
  also have "\<dots> = Inl NameError"
    using assms(3,4) unbound by (auto simp: route_def mark_trigger_view_def Let_def)
  finally have step: "process_line st raw = Inl NameError" .
  have "process_lines init_state (pre @ raw # post) = Inl (NameError, postgres_f st)"
    by (simp add: process_lines_append assms(1) step)
  then show ?thesis
    using unbound step by (simp add: run_def)
qed

text \<open>An input that meets the hypotheses: a trigger right after the opening line of a dump.\<close>

theorem name_error_witness:
  "run [''BEGIN TRANSACTION;\<newline>'', ''CREATE TRIGGER trg AFTER INSERT ON t\<newline>'', ''BEGIN\<newline>'']
     = Inl (NameError, [''BEGIN TRANSACTION;\<newline>''])"
proof -
  define st where "st = init_state\<lparr>postgres_f := [''BEGIN TRANSACTION;\<newline>'']\<rparr>"
  have h1: "process_lines init_state [''BEGIN TRANSACTION;\<newline>''] = Inr st"
    unfolding st_def by code_simp
  have h2: "tableCount st = 0" and h3: "\<not> foundTable st"
    by (simp_all add: st_def init_state_def)
  have h4: "prefix CONST_CREATE_TRIGGER_START (rewrite_line ''CREATE TRIGGER trg AFTER INSERT ON t\<newline>'')
      \<or> prefix CONST_CREATE_VIEW_START (rewrite_line ''CREATE TRIGGER trg AFTER INSERT ON t\<newline>'')"
    by code_simp
  from name_error_on_trigger_or_view_start [OF h1 h2 h3 h4, of "[''BEGIN\<newline>'']"]
  show ?thesis by (simp add: st_def)
qed

end
